theory Spec2Isabelle
  imports Complex_Main
begin

section \<open>Python values, strings and errors\<close>

text \<open>
  The exceptions the modelled code can raise, by Python class. A function that may raise
  returns \<open>error + 'a\<close>, with \<open>Inl\<close> the exception.
\<close>

datatype error = ValueError | KeyError | TypeError | AttributeError | StopIteration
  | IndexError | IOError

text \<open>A scalar read from the YAML configuration: an integer or a string.\<close>

datatype yval = YInt int | YStr string

definition ebind :: "error + 'a \<Rightarrow> ('a \<Rightarrow> error + 'b) \<Rightarrow> error + 'b" where
  "ebind r f = (case r of Inl e \<Rightarrow> Inl e | Inr x \<Rightarrow> f x)"

text \<open>\<^verbatim>\<open>d[k]\<close> on a dictionary kept as an association list in insertion order.\<close>

definition dict_get :: "('k \<times> 'v) list \<Rightarrow> 'k \<Rightarrow> error + 'v" where
  "dict_get d k = (case map_of d k of None \<Rightarrow> Inl KeyError | Some v \<Rightarrow> Inr v)"

text \<open>\<^verbatim>\<open>getattr(self, k)\<close> on the dynamically set attributes of the object.\<close>

definition getattr :: "(string \<rightharpoonup> 'v) \<Rightarrow> string \<Rightarrow> error + 'v" where
  "getattr a k = (case a k of None \<Rightarrow> Inl AttributeError | Some v \<Rightarrow> Inr v)"

text \<open>\<^verbatim>\<open>xs[i]\<close> for a non-negative index.\<close>

definition list_get :: "'a list \<Rightarrow> nat \<Rightarrow> error + 'a" where
  "list_get xs i = (if i < length xs then Inr (xs ! i) else Inl IndexError)"

text \<open>\<^verbatim>\<open>str(n)\<close> for an integer: decimal digits, a minus sign when negative.\<close>

definition digit_char :: "nat \<Rightarrow> char" where
  "digit_char d = ''0123456789'' ! d"

function str_nat :: "nat \<Rightarrow> string" where
  "str_nat n = (if n < 10 then [digit_char n] else str_nat (n div 10) @ [digit_char (n mod 10)])"
  by pat_completeness auto
termination
  by (relation "measure id") auto

declare str_nat.simps [simp del]

definition str_int :: "int \<Rightarrow> string" where
  "str_int i = (if i < 0 then CHR ''-'' # str_nat (nat (- i)) else str_nat (nat i))"




text \<open>
  \<^verbatim>\<open>s.split("__")\<close>: the pieces between the non-overlapping occurrences of the
  separator, found from the left.
\<close>

fun split_dunder :: "string \<Rightarrow> string list" where
  "split_dunder [] = [[]]"
| "split_dunder [c] = [[c]]"
| "split_dunder (c # d # cs) =
     (if c = CHR ''_'' \<and> d = CHR ''_'' then [] # split_dunder cs
      else (case split_dunder (d # cs) of [] \<Rightarrow> [[c]] | p # ps \<Rightarrow> (c # p) # ps))"

text \<open>\<^verbatim>\<open>a, b = xs\<close>: unpacking into two names needs exactly two items.\<close>

fun unpack2 :: "'a list \<Rightarrow> error + ('a \<times> 'a)" where
  "unpack2 [a, b] = Inr (a, b)"
| "unpack2 _ = Inl ValueError"

text \<open>
  \<^verbatim>\<open>s > t\<close> on Python strings: lexicographic on the code points, a proper prefix
  being smaller.
\<close>

fun str_gt :: "string \<Rightarrow> string \<Rightarrow> bool" where
  "str_gt [] _ = False"
| "str_gt (x # xs) [] = True"
| "str_gt (x # xs) (y # ys) =
     (if (of_char x :: nat) > of_char y then True
      else if (of_char x :: nat) < of_char y then False
      else str_gt xs ys)"

text \<open>\<^verbatim>\<open>os.path.join(a, b)\<close> on POSIX paths.\<close>

definition os_path_join :: "string \<Rightarrow> string \<Rightarrow> string" where
  "os_path_join a b =
     (if b \<noteq> [] \<and> hd b = CHR ''/'' then b
      else if a = [] \<or> last a = CHR ''/'' then a @ b
      else a @ ''/'' @ b)"

text \<open>
  The file system, as far as the code touches it: the set of directories that exist.
  \<^verbatim>\<open>os.makedirs(p, exist_ok=True)\<close> creates \<open>p\<close> and every missing ancestor, and
  does nothing for a directory that is already there.
\<close>

type_synonym fs = "string set"

definition ancestors :: "string \<Rightarrow> string list" where
  "ancestors p = map (\<lambda>k. take k p) (filter (\<lambda>k. 0 < k \<and> p ! k = CHR ''/'') [0..<length p])"

definition makedirs :: "string \<Rightarrow> fs \<Rightarrow> fs" where
  "makedirs p dirs = dirs \<union> set (ancestors p) \<union> {p}"

section \<open>The metadata manager\<close>

text \<open>
  The configuration, as \<^verbatim>\<open>yaml.load\<close> returns it: mappings are association lists in
  file order. The general parameters the code reads are typed fields.
\<close>

type_synonym attrs = "(string \<times> yval) list"

record config =
  data_dirs :: "(string \<times> string) list"
  output_dirs :: "(string \<times> string) list"
  nside :: int
  lmax :: int
  binning_file :: string
  map_sets :: "(string \<times> attrs) list"
  masks :: "(string \<times> string) list"
  sim_pars :: attrs
  tf_settings :: attrs

text \<open>
  The object after \<^verbatim>\<open>__init__\<close>. \<open>dir_attrs\<close> holds the attributes set from the
  directory labels, \<open>getters\<close> the attribute names for which a
  \<^verbatim>\<open>{attribute}_from_map_set\<close> getter was created.
\<close>

record bbmeta =
  m_config :: config
  dir_attrs :: "string \<rightharpoonup> string"
  getters :: "string list"
  map_sets_list :: "string list"
  maps_list :: "string list"
  path_to_binning :: string
  mask_names :: "(string \<times> string) list"
  sim_attrs :: attrs

text \<open>
  \<^verbatim>\<open>_set_directory_attributes\<close>, one of its two loops: every label but \<open>root\<close>
  becomes an attribute holding \<^verbatim>\<open>f"{root}/{path}"\<close>, the relative path is kept under
  \<^verbatim>\<open>f"{label}_relative"\<close>, and the directory is created.
\<close>

fun set_dirs :: "string \<Rightarrow> (string \<times> string) list \<Rightarrow> (string \<times> string) list \<Rightarrow>
    (string \<rightharpoonup> string) \<Rightarrow> fs \<Rightarrow> (error + (string \<rightharpoonup> string)) \<times> fs" where
  "set_dirs root_attr d [] a dirs = (Inr a, dirs)"
| "set_dirs root_attr d ((label, path) # rest) a dirs =
     (if label = ''root'' then
        (case dict_get d ''root'' of
           Inl e \<Rightarrow> (Inl e, dirs)
         | Inr r \<Rightarrow> set_dirs root_attr d rest (a(root_attr \<mapsto> r)) dirs)
      else
        (case dict_get d ''root'' of
           Inl e \<Rightarrow> (Inl e, dirs)
         | Inr r \<Rightarrow>
             (let full_path = r @ ''/'' @ path
              in set_dirs root_attr d rest
                   (a(label \<mapsto> full_path, label @ ''_relative'' \<mapsto> path))
                   (makedirs full_path dirs))))"

definition set_directory_attributes :: "config \<Rightarrow> fs \<Rightarrow> (error + (string \<rightharpoonup> string)) \<times> fs" where
  "set_directory_attributes c dirs =
     (case set_dirs ''data_dir'' (data_dirs c) (data_dirs c) Map.empty dirs of
        (Inl e, dirs') \<Rightarrow> (Inl e, dirs')
      | (Inr a, dirs') \<Rightarrow> set_dirs ''output_dir'' (output_dirs c) (output_dirs c) a dirs')"

text \<open>
  A getter \<^verbatim>\<open>{attribute}_from_map_set\<close> exists for the keys of the first map set; it
  returns \<^verbatim>\<open>self.map_sets[map_set][attribute]\<close>.
\<close>

definition from_map_set :: "string list \<Rightarrow> (string \<times> attrs) list \<Rightarrow> string \<Rightarrow> string \<Rightarrow> error + yval" where
  "from_map_set gs ms attribute map_set =
     (if attribute \<notin> set gs then Inl AttributeError
      else ebind (dict_get ms map_set) (\<lambda>entry. dict_get entry attribute))"

text \<open>\<^verbatim>\<open>range(n)\<close> for a configuration scalar: only an integer is accepted.\<close>

fun range_yval :: "yval \<Rightarrow> error + int list" where
  "range_yval (YInt n) = Inr (map int [0..<nat n])"
| "range_yval (YStr s) = Inl TypeError"

text \<open>\<^verbatim>\<open>_get_map_list\<close>: the comprehension over the map sets and their splits.\<close>

fun get_map_list :: "string list \<Rightarrow> (string \<times> attrs) list \<Rightarrow> string list \<Rightarrow> error + string list" where
  "get_map_list gs ms [] = Inr []"
| "get_map_list gs ms (map_set # rest) =
     ebind (from_map_set gs ms ''n_splits'' map_set) (\<lambda>n.
     ebind (range_yval n) (\<lambda>ids.
     ebind (get_map_list gs ms rest) (\<lambda>tl_maps.
       Inr (map (\<lambda>id_split. map_set @ ''__'' @ str_int id_split) ids @ tl_maps))))"

text \<open>The four mask file names, in the order \<^verbatim>\<open>__init__\<close> computes them.\<close>

definition mask_name :: "(string \<rightharpoonup> string) \<Rightarrow> (string \<times> string) list \<Rightarrow> string \<Rightarrow> error + string" where
  "mask_name a mk mask_type =
     (if mask_type = ''galactic'' then
        ebind (dict_get mk ''galactic_mask_root'') (\<lambda>r.
        ebind (dict_get mk ''gal_mask_mode'') (\<lambda>mode.
        ebind (getattr a ''mask_directory'') (\<lambda>d.
          Inr (os_path_join d (r @ ''_'' @ mode @ ''.fits'')))))
      else
        ebind (getattr a ''mask_directory'') (\<lambda>d.
        ebind (dict_get mk (mask_type @ ''_mask'')) (\<lambda>f.
          Inr (os_path_join d f))))"

fun mask_names_of :: "(string \<rightharpoonup> string) \<Rightarrow> (string \<times> string) list \<Rightarrow> string list \<Rightarrow>
    error + (string \<times> string) list" where
  "mask_names_of a mk [] = Inr []"
| "mask_names_of a mk (t # ts) =
     ebind (mask_name a mk t) (\<lambda>n.
     ebind (mask_names_of a mk ts) (\<lambda>ns. Inr ((t, n) # ns)))"

fun init_simulation_params :: "attrs \<Rightarrow> string list \<Rightarrow> error + attrs" where
  "init_simulation_params sp [] = Inr []"
| "init_simulation_params sp (name # names) =
     ebind (dict_get sp name) (\<lambda>v.
     ebind (init_simulation_params sp names) (\<lambda>vs. Inr ((name, v) # vs)))"

text \<open>
  \<^verbatim>\<open>BBmeta.__init__\<close>, after the file is loaded: the directory attributes, the check
  on \<open>lmax\<close>, then the attributes computed after it (\<open>init_attributes\<close>). The
  directories are created before the check, so the file system is returned also when the
  constructor raises.
\<close>

definition init_attributes :: "config \<Rightarrow> (string \<rightharpoonup> string) \<Rightarrow> error + bbmeta" where
  "init_attributes c a =
     ebind (getattr a ''pre_process_directory'') (\<lambda>pre.
     ebind (case map_sets c of [] \<Rightarrow> Inl StopIteration | (k, entry) # _ \<Rightarrow> dict_get (map_sets c) k)
       (\<lambda>first_entry.
     let gs = map fst first_entry;
         msl = map fst (map_sets c)
     in
     ebind (get_map_list gs (map_sets c) msl) (\<lambda>ml.
     ebind (mask_names_of a (masks c) [''binary'', ''galactic'', ''point_source'', ''analysis'']) (\<lambda>mn.
     ebind (init_simulation_params (sim_pars c)
              [''num_sims'', ''cosmology'', ''mock_nsrcs'', ''mock_srcs_hole_radius'', ''hitmap_file'']) (\<lambda>sa.
       Inr \<lparr> m_config = c, dir_attrs = a, getters = gs, map_sets_list = msl, maps_list = ml,
             path_to_binning = pre @ ''/'' @ binning_file c,
             mask_names = mn, sim_attrs = sa \<rparr>)))))"

definition init_after_dirs :: "config \<Rightarrow> (string \<rightharpoonup> string) \<Rightarrow> error + bbmeta" where
  "init_after_dirs c a =
     (if lmax c > 3 * nside c - 1 then Inl ValueError else init_attributes c a)"

definition bbmeta_init :: "config \<Rightarrow> fs \<Rightarrow> (error + bbmeta) \<times> fs" where
  "bbmeta_init c dirs =
     (case set_directory_attributes c dirs of
        (Inl e, dirs') \<Rightarrow> (Inl e, dirs')
      | (Inr a, dirs') \<Rightarrow> (init_after_dirs c a, dirs'))"

text \<open>
  A complete configuration to run the model on: the map sets are a parameter, \<open>nside\<close>
  is 256 and \<open>lmax\<close> the largest value the constructor accepts.
\<close>

definition example_config :: "(string \<times> attrs) list \<Rightarrow> config" where
  "example_config ms =
     \<lparr> data_dirs = [(''root'', ''data''), (''map_directory'', ''maps''), (''mask_directory'', ''masks'')],
       output_dirs = [(''root'', ''out''), (''pre_process_directory'', ''pre''),
                      (''sims_directory'', ''sims'')],
       nside = 256, lmax = 767, binning_file = ''binning.npz'',
       map_sets = ms,
       masks = [(''galactic_mask_root'', ''gal''), (''gal_mask_mode'', ''m''),
                (''binary_mask'', ''bin.fits''), (''point_source_mask'', ''ps.fits''),
                (''analysis_mask'', ''an.fits'')],
       sim_pars = [(''num_sims'', YInt 10), (''cosmology'', YStr ''c''), (''mock_nsrcs'', YInt 5),
                   (''mock_srcs_hole_radius'', YInt 40), (''hitmap_file'', YStr ''h.fits'')],
       tf_settings = [] \<rparr>"

definition map_set_entry :: "int \<Rightarrow> string \<Rightarrow> string \<Rightarrow> attrs" where
  "map_set_entry n tag file_root = [(''n_splits'', YInt n), (''exp_tag'', YStr tag), (''file_root'', YStr file_root)]"

text \<open>
  \<^verbatim>\<open>get_ps_names_list\<close>. The body of the two loops decides, for one pair of
  enumerated items, whether the pair is appended (\<open>True\<close>) or skipped by one of the
  \<^verbatim>\<open>continue\<close> statements (\<open>False\<close>); unpacking a split and looking an experiment tag up
  may raise.
\<close>

definition exp_tag_from_map_set :: "bbmeta \<Rightarrow> string \<Rightarrow> error + yval" where
  "exp_tag_from_map_set m map_set =
     from_map_set (getters m) (map_sets (m_config m)) ''exp_tag'' map_set"

definition ps_keep :: "bbmeta \<Rightarrow> string \<Rightarrow> bool \<Rightarrow> nat \<times> string \<Rightarrow> nat \<times> string \<Rightarrow> error + bool" where
  "ps_keep m type coadd p1 p2 =
     (case (p1, p2) of ((i, map_1), (j, map_2)) \<Rightarrow>
        if coadd then
          (if i > j then Inr False
           else if type = ''cross'' \<and> i = j then Inr False
           else if type = ''auto'' \<and> i \<noteq> j then Inr False
           else Inr True)
        else
          ebind (unpack2 (split_dunder map_1)) (\<lambda>(map_set_1, split_1).
          ebind (unpack2 (split_dunder map_2)) (\<lambda>(map_set_2, split_2).
            if map_set_1 = map_set_2 \<and> str_gt split_1 split_2 then Inr False
            else
              ebind (exp_tag_from_map_set m map_set_1) (\<lambda>exp_tag_1.
              ebind (exp_tag_from_map_set m map_set_2) (\<lambda>exp_tag_2.
                if type = ''cross'' \<and> exp_tag_1 = exp_tag_2 \<and> split_1 = split_2 then Inr False
                else if type = ''auto'' \<and> exp_tag_1 \<noteq> exp_tag_2 \<and> split_1 \<noteq> split_2 then Inr False
                else Inr True)))))"

fun ps_inner :: "bbmeta \<Rightarrow> string \<Rightarrow> bool \<Rightarrow> nat \<times> string \<Rightarrow> (nat \<times> string) list \<Rightarrow>
    (string \<times> string) list \<Rightarrow> error + (string \<times> string) list" where
  "ps_inner m type coadd p1 [] ps_name_list = Inr ps_name_list"
| "ps_inner m type coadd p1 (p2 # rest) ps_name_list =
     ebind (ps_keep m type coadd p1 p2) (\<lambda>keep.
       ps_inner m type coadd p1 rest
         (if keep then ps_name_list @ [(snd p1, snd p2)] else ps_name_list))"

fun ps_outer :: "bbmeta \<Rightarrow> string \<Rightarrow> bool \<Rightarrow> (nat \<times> string) list \<Rightarrow> (nat \<times> string) list \<Rightarrow>
    (string \<times> string) list \<Rightarrow> error + (string \<times> string) list" where
  "ps_outer m type coadd [] map_iterable ps_name_list = Inr ps_name_list"
| "ps_outer m type coadd (p1 # rest) map_iterable ps_name_list =
     ebind (ps_inner m type coadd p1 map_iterable ps_name_list)
       (ps_outer m type coadd rest map_iterable)"

definition get_ps_names_list :: "bbmeta \<Rightarrow> string \<Rightarrow> bool \<Rightarrow> error + (string \<times> string) list" where
  "get_ps_names_list m type coadd =
     (let map_iterable = enumerate 0 (if coadd then map_sets_list m else maps_list m)
      in ps_outer m type coadd map_iterable map_iterable [])"


text \<open>
  The object the constructor builds from \<open>example_config\<close>, written out; \<open>ml\<close> is the
  map list.
\<close>

definition example_meta :: "(string \<times> attrs) list \<Rightarrow> string list \<Rightarrow> bbmeta" where
  "example_meta ms ml =
     \<lparr> m_config = example_config ms,
       dir_attrs = [''data_dir'' \<mapsto> ''data'',
                    ''map_directory'' \<mapsto> ''data/maps'', ''map_directory_relative'' \<mapsto> ''maps'',
                    ''mask_directory'' \<mapsto> ''data/masks'', ''mask_directory_relative'' \<mapsto> ''masks'',
                    ''output_dir'' \<mapsto> ''out'',
                    ''pre_process_directory'' \<mapsto> ''out/pre'', ''pre_process_directory_relative'' \<mapsto> ''pre'',
                    ''sims_directory'' \<mapsto> ''out/sims'', ''sims_directory_relative'' \<mapsto> ''sims''],
       getters = [''n_splits'', ''exp_tag'', ''file_root''],
       map_sets_list = map fst ms,
       maps_list = ml,
       path_to_binning = ''out/pre/binning.npz'',
       mask_names = [(''binary'', ''data/masks/bin.fits''), (''galactic'', ''data/masks/gal_m.fits''),
                     (''point_source'', ''data/masks/ps.fits''), (''analysis'', ''data/masks/an.fits'')],
       sim_attrs = [(''num_sims'', YInt 10), (''cosmology'', YStr ''c''), (''mock_nsrcs'', YInt 5),
                    (''mock_srcs_hole_radius'', YInt 40), (''hitmap_file'', YStr ''h.fits'')] \<rparr>"

text \<open>
  Two instances: map sets \<open>A\<close> (2 splits) and \<open>B\<close> (3 splits), and the single map set
  \<open>A\<close> (2 splits) with a given file root.
\<close>

definition meta_AB :: bbmeta where
  "meta_AB = example_meta [(''A'', map_set_entry 2 ''sat'' ''a''), (''B'', map_set_entry 3 ''lat'' ''b'')]
     [''A__0'', ''A__1'', ''B__0'', ''B__1'', ''B__2'']"

definition meta_A :: "string \<Rightarrow> bbmeta" where
  "meta_A file_root = example_meta [(''A'', map_set_entry 2 ''sat'' file_root)] [''A__0'', ''A__1'']"

text \<open>
  The pairs of a list with the first item at or before the second, row by row: what
  \<^verbatim>\<open>itertools.combinations_with_replacement(xs, 2)\<close> lists.
\<close>

fun upper_pairs :: "'a list \<Rightarrow> ('a \<times> 'a) list" where
  "upper_pairs [] = []"
| "upper_pairs (x # xs) = map (Pair x) (x # xs) @ upper_pairs xs"

section \<open>The pseudo-spectrum routine\<close>

text \<open>
  \<^verbatim>\<open>PipelineManager.cl_pair_iter\<close>: the generator, as the list of the triples it yields.
  The counter \<open>icl\<close> is threaded through both loops.
\<close>

fun cl_pair_inner :: "nat \<Rightarrow> nat \<Rightarrow> nat list \<Rightarrow> (nat \<times> nat \<times> nat) list \<times> nat" where
  "cl_pair_inner icl i [] = ([], icl)"
| "cl_pair_inner icl i (j # js) =
     (case cl_pair_inner (icl + 1) i js of (ys, icl') \<Rightarrow> ((icl, i, j) # ys, icl'))"

fun cl_pair_outer :: "nat \<Rightarrow> nat \<Rightarrow> nat list \<Rightarrow> (nat \<times> nat \<times> nat) list" where
  "cl_pair_outer icl nmaps [] = []"
| "cl_pair_outer icl nmaps (i # is) =
     (case cl_pair_inner icl i [i..<nmaps] of (ys, icl') \<Rightarrow> ys @ cl_pair_outer icl' nmaps is)"

definition cl_pair_iter :: "int \<Rightarrow> (nat \<times> nat \<times> nat) list" where
  "cl_pair_iter nmaps = cl_pair_outer 0 (nat nmaps) [0..<nat nmaps]"

text \<open>
  A float64: a finite value, an infinity, or NaN. The two zeros are one value, as \<^verbatim>\<open>==\<close>
  has them. \<open>Finite x\<close> is a value of the format when \<open>x\<close> is \<open>representable\<close>: a
  significand of 53 bits and an exponent in the range of binary64, subnormal numbers included.
\<close>

datatype float64 = Finite real | PInf | NInf | NaN

definition representable :: "real \<Rightarrow> bool" where
  "representable x \<longleftrightarrow>
     (\<exists>m e :: int. \<bar>m\<bar> < 2 ^ 53 \<and> - 1074 \<le> e \<and> e \<le> 971 \<and> x = of_int m * 2 powr of_int e)"

fun is_float64 :: "float64 \<Rightarrow> bool" where
  "is_float64 (Finite x) = representable x"
| "is_float64 PInf = True"
| "is_float64 NInf = True"
| "is_float64 NaN = True"

text \<open>\<^verbatim>\<open>np.isfinite\<close>: neither an infinity nor NaN.\<close>

fun isfinite :: "float64 \<Rightarrow> bool" where
  "isfinite (Finite x) = True"
| "isfinite PInf = False"
| "isfinite NInf = False"
| "isfinite NaN = False"

text \<open>
  Rounding of an exact result to the nearest value of the format, ties to the even
  significand; a result that rounds to \<open>2 ^ 1024\<close> or beyond becomes an infinity.
\<close>

definition round_even :: "real \<Rightarrow> int" where
  "round_even y =
     (let f = \<lfloor>y\<rfloor> in
      if y - of_int f < 1 / 2 then f
      else if y - of_int f > 1 / 2 then f + 1
      else if even f then f else f + 1)"

definition fl :: "real \<Rightarrow> float64" where
  "fl x =
     (let e = max (\<lfloor>log 2 \<bar>x\<bar>\<rfloor> - 52) (- 1074);
          y = of_int (round_even (x / 2 powr of_int e)) * 2 powr of_int e
      in if \<bar>y\<bar> \<ge> 2 ^ 1024 then (if y > 0 then PInf else NInf) else Finite y)"

text \<open>
  The product and the sum of two float64: zero times an infinity and the difference of two
  infinities are NaN, and NaN propagates.
\<close>

fun fmul :: "float64 \<Rightarrow> float64 \<Rightarrow> float64" where
  "fmul (Finite x) (Finite y) = fl (x * y)"
| "fmul (Finite x) PInf = (if x = 0 then NaN else if 0 < x then PInf else NInf)"
| "fmul (Finite x) NInf = (if x = 0 then NaN else if 0 < x then NInf else PInf)"
| "fmul PInf (Finite y) = (if y = 0 then NaN else if 0 < y then PInf else NInf)"
| "fmul NInf (Finite y) = (if y = 0 then NaN else if 0 < y then NInf else PInf)"
| "fmul PInf PInf = PInf"
| "fmul PInf NInf = NInf"
| "fmul NInf PInf = NInf"
| "fmul NInf NInf = PInf"
| "fmul NaN y = NaN"
| "fmul (Finite x) NaN = NaN"
| "fmul PInf NaN = NaN"
| "fmul NInf NaN = NaN"

fun fadd :: "float64 \<Rightarrow> float64 \<Rightarrow> float64" where
  "fadd (Finite x) (Finite y) = fl (x + y)"
| "fadd (Finite x) PInf = PInf"
| "fadd (Finite x) NInf = NInf"
| "fadd PInf (Finite y) = PInf"
| "fadd NInf (Finite y) = NInf"
| "fadd PInf PInf = PInf"
| "fadd PInf NInf = NaN"
| "fadd NInf PInf = NaN"
| "fadd NInf NInf = NInf"
| "fadd NaN y = NaN"
| "fadd (Finite x) NaN = NaN"
| "fadd PInf NaN = NaN"
| "fadd NInf NaN = NaN"

text \<open>A numpy array of float64: its shape and its items in row-major order.\<close>

record ndarray =
  shape :: "nat list"
  items :: "float64 list"

definition wf_ndarray :: "ndarray \<Rightarrow> bool" where
  "wf_ndarray a \<longleftrightarrow> length (items a) = prod_list (shape a)"

definition reshape :: "nat list \<Rightarrow> ndarray \<Rightarrow> error + ndarray" where
  "reshape s a = (if prod_list s = length (items a) then Inr \<lparr>shape = s, items = items a\<rparr> else Inl ValueError)"

definition flatten :: "ndarray \<Rightarrow> ndarray" where
  "flatten a = \<lparr>shape = [length (items a)], items = items a\<rparr>"

text \<open>
  \<^verbatim>\<open>np.dot(w, v)\<close> for a matrix and a vector, the one case the code uses; the inner
  dimensions must agree. Each item is the sum of the rounded products, accumulated from
  zero in index order, every partial sum rounded.
\<close>

definition np_dot :: "ndarray \<Rightarrow> ndarray \<Rightarrow> error + ndarray" where
  "np_dot w v =
     (case (shape w, shape v) of
        ([r, c], [n]) \<Rightarrow>
          if c = n then
            Inr \<lparr>shape = [r],
                 items = map (\<lambda>i. foldl fadd (Finite 0)
                                (map (\<lambda>k. fmul (items w ! (i * c + k)) (items v ! k)) [0..<c])) [0..<r]\<rparr>
          else Inl ValueError
      | _ \<Rightarrow> Inl ValueError)"

text \<open>\<^verbatim>\<open>a[k]\<close>: the \<open>k\<close>-th item along the first axis.\<close>

definition nd_row :: "ndarray \<Rightarrow> nat \<Rightarrow> error + ndarray" where
  "nd_row a k =
     (case shape a of
        [] \<Rightarrow> Inl IndexError
      | n # rest \<Rightarrow>
          if k < n then
            Inr \<lparr>shape = rest, items = take (prod_list rest) (drop (k * prod_list rest) (items a))\<rparr>
          else Inl IndexError)"

text \<open>\<^verbatim>\<open>len(a)\<close>: the size of the first axis; an array without axes has no length.\<close>

definition nd_len :: "ndarray \<Rightarrow> error + nat" where
  "nd_len a = (case shape a of [] \<Rightarrow> Inl TypeError | n # rest \<Rightarrow> Inr n)"

text \<open>
  The collaborators: the map reader and the field and spectrum routines of the external
  libraries, and the binning scheme. Each call may raise.
\<close>

record ('mp, 'mask, 'field) collaborators =
  read_map :: "string \<Rightarrow> error + ('mp \<times> 'mp)"
  NmtField :: "'mask \<Rightarrow> 'mp \<Rightarrow> 'mp \<Rightarrow> error + 'field"
  compute_coupled_cell :: "'field \<Rightarrow> 'field \<Rightarrow> error + ndarray"

record binning =
  get_n_bands :: nat
  get_effective_ells :: "float64 list"
  bin_cell :: "ndarray \<Rightarrow> error + ndarray"

text \<open>
  The archive: the tracers by name, and the spectrum records in the order they were
  added, one record for each call of \<^verbatim>\<open>add_ell_cl\<close>.
\<close>

record cl_record =
  data_type :: string
  tracer1 :: string
  tracer2 :: string
  ell :: "float64 list"
  cl :: ndarray

record sacc =
  tracers :: "(string \<times> string) list"
  records :: "cl_record list"

definition empty_sacc :: sacc where
  "empty_sacc = \<lparr>tracers = [], records = []\<rparr>"

fun dict_set :: "'k \<Rightarrow> 'v \<Rightarrow> ('k \<times> 'v) list \<Rightarrow> ('k \<times> 'v) list" where
  "dict_set k v [] = [(k, v)]"
| "dict_set k v (p # ps) = (if fst p = k then (k, v) # ps else p # dict_set k v ps)"

definition add_tracer :: "string \<Rightarrow> string \<Rightarrow> sacc \<Rightarrow> sacc" where
  "add_tracer tracer_type name s = s\<lparr>tracers := dict_set name tracer_type (tracers s)\<rparr>"

text \<open>
  \<^verbatim>\<open>Sacc.add_ell_cl\<close> for an array of multipoles: the multipoles and the spectrum must
  have the same length, and a data point can only be added for tracers of the archive.
\<close>

definition add_ell_cl :: "string \<Rightarrow> string \<Rightarrow> string \<Rightarrow> float64 list \<Rightarrow> ndarray \<Rightarrow> sacc \<Rightarrow> error + sacc" where
  "add_ell_cl dt n1 n2 l x s =
     ebind (nd_len x) (\<lambda>n.
       if n \<noteq> length l then Inl ValueError
       else if l \<noteq> [] \<and> (n1 \<notin> fst ` set (tracers s) \<or> n2 \<notin> fst ` set (tracers s)) then Inl ValueError
       else Inr (s\<lparr>records := records s @ [\<lparr>data_type = dt, tracer1 = n1, tracer2 = n2, ell = l, cl = x\<rparr>]\<rparr>))"

text \<open>What the routine does to the outside world, in order.\<close>

datatype event = ReadMap string | BuildField | SaveFits string sacc

text \<open>Lines 21 to 26: the check of the operator's shape, and its flattening.\<close>

definition check_winv :: "binning \<Rightarrow> ndarray option \<Rightarrow> error + ndarray option" where
  "check_winv b winv =
     (case winv of
        None \<Rightarrow> Inr None
      | Some w \<Rightarrow>
          (let nbpw = get_n_bands b in
           if shape w \<noteq> [4, nbpw, 4, nbpw] then Inl ValueError
           else ebind (reshape [4 * nbpw, 4 * nbpw] w) (\<lambda>w'. Inr (Some w'))))"

text \<open>Lines 29 to 33: reading the maps and building the fields.\<close>

fun read_fields :: "('mp, 'mask, 'field) collaborators \<Rightarrow> 'mask \<Rightarrow> string list \<Rightarrow>
    (error + 'field list) \<times> event list" where
  "read_fields x msk [] = (Inr [], [])"
| "read_fields x msk (fname # rest) =
     (case read_map x fname of
        Inl e \<Rightarrow> (Inl e, [ReadMap fname])
      | Inr (mpQ, mpU) \<Rightarrow>
          (case NmtField x msk mpQ mpU of
             Inl e \<Rightarrow> (Inl e, [ReadMap fname, BuildField])
           | Inr f \<Rightarrow>
               (case read_fields x msk rest of
                  (Inl e, evs) \<Rightarrow> (Inl e, ReadMap fname # BuildField # evs)
                | (Inr flds, evs) \<Rightarrow> (Inr (f # flds), ReadMap fname # BuildField # evs))))"

text \<open>Line 43: the deconvolution of one binned spectrum.\<close>

definition deconvolve :: "ndarray option \<Rightarrow> nat \<Rightarrow> ndarray \<Rightarrow> error + ndarray" where
  "deconvolve winv nbpw pcl =
     (case winv of
        None \<Rightarrow> Inr pcl
      | Some w \<Rightarrow> ebind (np_dot w (flatten pcl)) (reshape [4, nbpw]))"

text \<open>Lines 39 to 43: the spectrum of one pair of fields.\<close>

definition pcl_of :: "('mp, 'mask, 'field) collaborators \<Rightarrow> binning \<Rightarrow> ndarray option \<Rightarrow>
    'field list \<Rightarrow> nat \<Rightarrow> nat \<Rightarrow> error + ndarray" where
  "pcl_of x b winv flds i j =
     ebind (list_get flds i) (\<lambda>f1.
     ebind (list_get flds j) (\<lambda>f2.
     ebind (compute_coupled_cell x f1 f2) (\<lambda>c.
     ebind (bin_cell b c) (\<lambda>pcl.
       deconvolve winv (get_n_bands b) pcl))))"

fun compute_cls :: "('mp, 'mask, 'field) collaborators \<Rightarrow> binning \<Rightarrow> ndarray option \<Rightarrow>
    'field list \<Rightarrow> (nat \<times> nat \<times> nat) list \<Rightarrow> ndarray list \<Rightarrow> error + ndarray list" where
  "compute_cls x b winv flds [] cls = Inr cls"
| "compute_cls x b winv flds ((icl, i, j) # rest) cls =
     ebind (pcl_of x b winv flds i j) (\<lambda>pcl.
       compute_cls x b winv flds rest (cls @ [pcl]))"

text \<open>Lines 52 to 56: the records of one pair.\<close>

definition add_pair :: "string list \<Rightarrow> float64 list \<Rightarrow> ndarray list \<Rightarrow> nat \<times> nat \<times> nat \<Rightarrow> sacc \<Rightarrow> error + sacc" where
  "add_pair names leff cls t s =
     (case t of (icl, i, j) \<Rightarrow>
        ebind (list_get names i) (\<lambda>n1.
        ebind (list_get names j) (\<lambda>n2.
        ebind (list_get cls icl) (\<lambda>c.
        ebind (nd_row c 0) (\<lambda>ee.
        ebind (add_ell_cl ''cl_ee'' n1 n2 leff ee s) (\<lambda>s1.
        ebind (nd_row c 1) (\<lambda>eb.
        ebind (add_ell_cl ''cl_eb'' n1 n2 leff eb s1) (\<lambda>s2.
        ebind (if i \<noteq> j
               then ebind (nd_row c 2) (\<lambda>be. add_ell_cl ''cl_be'' n1 n2 leff be s2)
               else Inr s2) (\<lambda>s3.
        ebind (nd_row c 3) (\<lambda>bb.
          add_ell_cl ''cl_bb'' n1 n2 leff bb s3))))))))))"

fun add_cls :: "string list \<Rightarrow> float64 list \<Rightarrow> ndarray list \<Rightarrow> (nat \<times> nat \<times> nat) list \<Rightarrow> sacc \<Rightarrow> error + sacc" where
  "add_cls names leff cls [] s = Inr s"
| "add_cls names leff cls (t # rest) s =
     ebind (add_pair names leff cls t s) (add_cls names leff cls rest)"

text \<open>
  \<^verbatim>\<open>get_pcls\<close>, with \<open>man\<close> a \<^verbatim>\<open>PipelineManager\<close>: the result and the events in the
  order they happened. The archive is saved last, so a call that raises has saved nothing.
\<close>

definition get_pcls :: "('mp, 'mask, 'field) collaborators \<Rightarrow> string list \<Rightarrow> string list \<Rightarrow> string \<Rightarrow>
    'mask \<Rightarrow> binning \<Rightarrow> ndarray option \<Rightarrow> (error + unit) \<times> event list" where
  "get_pcls x fnames names fname_out msk b winv =
     (case check_winv b winv of
        Inl e \<Rightarrow> (Inl e, [])
      | Inr winv' \<Rightarrow>
          (case read_fields x msk fnames of
             (Inl e, evs) \<Rightarrow> (Inl e, evs)
           | (Inr flds, evs) \<Rightarrow>
               (let nmaps = int (length flds) in
                case compute_cls x b winv' flds (cl_pair_iter nmaps) [] of
                  Inl e \<Rightarrow> (Inl e, evs)
                | Inr cls \<Rightarrow>
                    (let leff = get_effective_ells b;
                         s = fold (add_tracer ''Misc'') names empty_sacc
                     in case add_cls names leff cls (cl_pair_iter nmaps) s of
                          Inl e \<Rightarrow> (Inl e, evs)
                        | Inr s' \<Rightarrow> (Inr (), evs @ [SaveFits fname_out s'])))))"

text \<open>
  Collaborators to run the routine on: two map files, a field that keeps what it was built
  from, a coupled spectrum of shape \<open>(4, 2)\<close>, and a binning scheme with two bands that
  leaves such a spectrum as it is.
\<close>

definition example_pcl :: "nat \<Rightarrow> ndarray" where
  "example_pcl a = \<lparr>shape = [4, 2], items = map (\<lambda>k. Finite (real (a + k))) [0, 1, 2, 3, 4, 5, 6, 7]\<rparr>"

definition example_collab :: "(nat, nat, nat \<times> nat \<times> nat) collaborators" where
  "example_collab =
     \<lparr> read_map = (\<lambda>fname. if fname = ''m0.fits'' then Inr (1, 2)
                             else if fname = ''m1.fits'' then Inr (3, 4) else Inl IOError),
       NmtField = (\<lambda>msk mpQ mpU. Inr (msk, mpQ, mpU)),
       compute_coupled_cell = (\<lambda>f1 f2. Inr (example_pcl (fst (snd f1) * fst (snd f2)))) \<rparr>"

text \<open>The same collaborators, with a coupled spectrum whose first item is infinite.\<close>

definition example_pcl_inf :: ndarray where
  "example_pcl_inf =
     \<lparr>shape = [4, 2], items = [PInf, Finite 0, Finite 0, Finite 0, Finite 0, Finite 0, Finite 0, Finite 0]\<rparr>"

definition example_collab_inf :: "(nat, nat, nat \<times> nat \<times> nat) collaborators" where
  "example_collab_inf = example_collab \<lparr> compute_coupled_cell := (\<lambda>f1 f2. Inr example_pcl_inf) \<rparr>"

definition example_binning :: binning where
  "example_binning = \<lparr> get_n_bands = 2, get_effective_ells = [Finite 10, Finite 20], bin_cell = Inr \<rparr>"

text \<open>
  The identity operator for \<open>nbpw\<close> bands, \<^verbatim>\<open>np.eye(4 * nbpw)\<close> reshaped to
  \<open>(4, nbpw, 4, nbpw)\<close>, and the matrix the shape check turns it into.
\<close>

definition identity_winv :: "nat \<Rightarrow> ndarray" where
  "identity_winv nbpw =
     \<lparr>shape = [4, nbpw, 4, nbpw],
      items = map (\<lambda>k. if k div (4 * nbpw) = k mod (4 * nbpw) then Finite 1 else Finite 0)
                [0..<(4 * nbpw) * (4 * nbpw)]\<rparr>"

definition identity_matrix :: "nat \<Rightarrow> ndarray" where
  "identity_matrix nbpw = \<lparr>shape = [4 * nbpw, 4 * nbpw], items = items (identity_winv nbpw)\<rparr>"

text \<open>
  The records one triple \<open>(icl, i, j)\<close> of the iterator contributes to the archive: their
  data types in order, the rows of \<open>cls[icl]\<close> they hold, and their tracer names and
  multipoles.
\<close>

definition pair_block :: "string list \<Rightarrow> float64 list \<Rightarrow> ndarray list \<Rightarrow> nat \<times> nat \<times> nat \<Rightarrow>
    cl_record list \<Rightarrow> bool" where
  "pair_block names leff cls t blk \<longleftrightarrow>
     (case t of (icl, i, j) \<Rightarrow>
        map data_type blk = (if i \<noteq> j then [''cl_ee'', ''cl_eb'', ''cl_be'', ''cl_bb'']
                             else [''cl_ee'', ''cl_eb'', ''cl_bb''])
      \<and> map (\<lambda>r. Inr (cl r)) blk = map (nd_row (cls ! icl)) (if i \<noteq> j then [0, 1, 2, 3] else [0, 1, 3])
      \<and> list_all (\<lambda>r. tracer1 r = names ! i \<and> tracer2 r = names ! j \<and> ell r = leff) blk)"

section \<open>Properties of the metadata manager\<close>

subsection \<open>Strings and the map list\<close>

lemma str_nat_digit: "n < 10 \<Longrightarrow> str_nat n = [digit_char n]"
  by (simp add: str_nat.simps)

lemma str_int_0: "str_int 0 = ''0''" and str_int_1: "str_int 1 = ''1''" and str_int_2: "str_int 2 = ''2''"
  by (simp_all add: str_int_def str_nat_digit digit_char_def)


lemma range_yval_2: "range_yval (YInt 2) = Inr [0, 1]"
  by (simp add: upt_rec)

lemma range_yval_3: "range_yval (YInt 3) = Inr [0, 1, 2]"
  by (simp add: upt_rec)

lemma get_map_list_two:
  assumes "A \<noteq> B"
    and "map_of ea ''n_splits'' = Some (YInt 2)"
    and "map_of eb ''n_splits'' = Some (YInt 3)"
  shows "get_map_list (map fst ea) [(A, ea), (B, eb)] [A, B] =
    Inr [A @ ''__0'', A @ ''__1'', B @ ''__0'', B @ ''__1'', B @ ''__2'']"
proof -
  have mem: "''n_splits'' \<in> fst ` set ea"
    using assms(2) by (metis map_of_eq_None_iff option.distinct(1))
  have a: "from_map_set (map fst ea) [(A, ea), (B, eb)] ''n_splits'' A = Inr (YInt 2)"
    using mem assms(2) by (simp add: from_map_set_def dict_get_def ebind_def)
  have b: "from_map_set (map fst ea) [(A, ea), (B, eb)] ''n_splits'' B = Inr (YInt 3)"
    using mem assms(1,3) by (simp add: from_map_set_def dict_get_def ebind_def)
  show ?thesis
    by (simp add: a b range_yval_2 range_yval_3 ebind_def str_int_0 str_int_1 str_int_2 del: range_yval.simps)
qed

lemma ebind_Inr_iff: "ebind r f = Inr y \<longleftrightarrow> (\<exists>x. r = Inr x \<and> f x = Inr y)"
  by (cases r) (simp_all add: ebind_def)



lemma example_init:
  "\<exists>m d. bbmeta_init (example_config [(''A'', map_set_entry 2 ''sat'' ''a''), (''B'', map_set_entry 3 ''lat'' ''b'')]) {} = (Inr m, d)"
  by (simp add: bbmeta_init_def example_config_def map_set_entry_def set_directory_attributes_def dict_get_def
     init_after_dirs_def init_attributes_def getattr_def ebind_def from_map_set_def mask_name_def Let_def)


subsection \<open>The check on lmax\<close>

lemma ebind_not_ValueError:
  "r \<noteq> Inl ValueError \<Longrightarrow> (\<And>x. f x \<noteq> Inl ValueError) \<Longrightarrow> ebind r f \<noteq> Inl ValueError"
  by (cases r) (simp_all add: ebind_def)

lemma dict_get_not_ValueError: "dict_get d k \<noteq> Inl ValueError"
  by (simp add: dict_get_def split: option.splits)

lemma getattr_not_ValueError: "getattr a k \<noteq> Inl ValueError"
  by (simp add: getattr_def split: option.splits)

lemma from_map_set_not_ValueError: "from_map_set gs ms attr k \<noteq> Inl ValueError"
  by (simp add: from_map_set_def ebind_not_ValueError dict_get_not_ValueError)

lemma range_yval_not_ValueError: "range_yval v \<noteq> Inl ValueError"
  by (cases v) simp_all

lemma get_map_list_not_ValueError: "get_map_list gs ms l \<noteq> Inl ValueError"
  by (induction l) (simp_all add: ebind_not_ValueError from_map_set_not_ValueError range_yval_not_ValueError)

lemma mask_names_of_not_ValueError: "mask_names_of a mk ts \<noteq> Inl ValueError"
  by (induction ts)
    (simp_all add: mask_name_def ebind_not_ValueError dict_get_not_ValueError getattr_not_ValueError)

lemma init_simulation_params_not_ValueError: "init_simulation_params sp ns \<noteq> Inl ValueError"
  by (induction ns) (simp_all add: ebind_not_ValueError dict_get_not_ValueError)

lemma init_attributes_not_ValueError: "init_attributes c a \<noteq> Inl ValueError"
  unfolding init_attributes_def Let_def
  by (intro ebind_not_ValueError getattr_not_ValueError get_map_list_not_ValueError
      mask_names_of_not_ValueError init_simulation_params_not_ValueError)
    (simp_all add: dict_get_not_ValueError split: list.splits)

lemma set_dirs_not_ValueError: "fst (set_dirs ra d l a dirs) \<noteq> Inl ValueError"
  by (induction l arbitrary: a dirs)
    (auto simp: Let_def dict_get_not_ValueError split: if_splits sum.splits)

lemma set_directory_attributes_not_ValueError: "fst (set_directory_attributes c dirs) \<noteq> Inl ValueError"
  using set_dirs_not_ValueError
  by (auto simp: set_directory_attributes_def split: prod.splits sum.splits dest: arg_cong[where f=fst])

lemma set_directory_attributes_lmax:
  "set_directory_attributes (c\<lparr>lmax := l\<rparr>) dirs = set_directory_attributes c dirs"
  by (simp add: set_directory_attributes_def split: prod.splits sum.splits)

lemma init_attributes_lmax:
  "init_attributes (c\<lparr>lmax := l\<rparr>) a = Inr m \<Longrightarrow> \<exists>m'. init_attributes (c\<lparr>lmax := l'\<rparr>) a = Inr m'"
  by (auto simp: init_attributes_def Let_def ebind_Inr_iff split: list.splits)

text \<open>
  C6: the constructor raises the configuration error only when \<open>lmax > 3 * nside - 1\<close>;
  for a configuration that is valid apart from \<open>lmax\<close>, it raises with
  \<open>lmax = 3 * nside\<close>, succeeds with \<open>lmax = 3 * nside - 1\<close>, and fails exactly when
  \<open>lmax > 3 * nside - 1\<close>.
\<close>

theorem lmax_check:
  "(fst (bbmeta_init c dirs) = Inl ValueError \<longrightarrow> lmax c > 3 * nside c - 1)
   \<and> ((\<exists>l0 m0. fst (bbmeta_init (c\<lparr>lmax := l0\<rparr>) dirs) = Inr m0) \<longrightarrow>
        fst (bbmeta_init (c\<lparr>lmax := 3 * nside c\<rparr>) dirs) = Inl ValueError
      \<and> (\<exists>m. fst (bbmeta_init (c\<lparr>lmax := 3 * nside c - 1\<rparr>) dirs) = Inr m)
      \<and> (\<forall>l. (\<exists>e. fst (bbmeta_init (c\<lparr>lmax := l\<rparr>) dirs) = Inl e) \<longleftrightarrow> l > 3 * nside c - 1)
      \<and> (\<forall>l. fst (bbmeta_init (c\<lparr>lmax := l\<rparr>) dirs) = Inl ValueError \<longleftrightarrow> l > 3 * nside c - 1))"
proof (intro conjI impI)
  assume "fst (bbmeta_init c dirs) = Inl ValueError"
  then show "lmax c > 3 * nside c - 1"
    using set_directory_attributes_not_ValueError[of c dirs] init_attributes_not_ValueError
    by (auto simp: bbmeta_init_def init_after_dirs_def split: prod.splits sum.splits if_splits)
next
  assume "\<exists>l0 m0. fst (bbmeta_init (c\<lparr>lmax := l0\<rparr>) dirs) = Inr m0"
  then obtain l0 m0 where ok: "fst (bbmeta_init (c\<lparr>lmax := l0\<rparr>) dirs) = Inr m0" by blast
  then obtain a d where sd: "set_directory_attributes c dirs = (Inr a, d)"
    and "init_after_dirs (c\<lparr>lmax := l0\<rparr>) a = Inr m0"
    by (auto simp: bbmeta_init_def set_directory_attributes_lmax split: prod.splits sum.splits)
  then have ia: "init_attributes (c\<lparr>lmax := l0\<rparr>) a = Inr m0"
    by (auto simp: init_after_dirs_def split: if_splits)
  have run: "fst (bbmeta_init (c\<lparr>lmax := l\<rparr>) dirs) =
      (if l > 3 * nside c - 1 then Inl ValueError else init_attributes (c\<lparr>lmax := l\<rparr>) a)" for l
    by (simp add: bbmeta_init_def set_directory_attributes_lmax sd init_after_dirs_def)
  have good: "\<exists>m. init_attributes (c\<lparr>lmax := l\<rparr>) a = Inr m" for l
    using init_attributes_lmax[OF ia] .
  then have good': "init_attributes (c\<lparr>lmax := l\<rparr>) a \<noteq> Inl e" for l e
    by (metis sum.distinct(1))
  show "fst (bbmeta_init (c\<lparr>lmax := 3 * nside c\<rparr>) dirs) = Inl ValueError"
    by (simp add: run)
  show "\<exists>m. fst (bbmeta_init (c\<lparr>lmax := 3 * nside c - 1\<rparr>) dirs) = Inr m"
    using good by (simp add: run)
  show "\<forall>l. (\<exists>e. fst (bbmeta_init (c\<lparr>lmax := l\<rparr>) dirs) = Inl e) \<longleftrightarrow> l > 3 * nside c - 1"
    using good' by (auto simp: run)
  show "\<forall>l. fst (bbmeta_init (c\<lparr>lmax := l\<rparr>) dirs) = Inl ValueError \<longleftrightarrow> l > 3 * nside c - 1"
    using good' by (auto simp: run)
qed

theorem lmax_check_witness:
  "fst (bbmeta_init ((example_config [(''A'', map_set_entry 2 ''sat'' ''a''), (''B'', map_set_entry 3 ''lat'' ''b'')])\<lparr>lmax := 768\<rparr>) {}) = Inl ValueError
   \<and> (\<exists>m. fst (bbmeta_init ((example_config [(''A'', map_set_entry 2 ''sat'' ''a''), (''B'', map_set_entry 3 ''lat'' ''b'')])\<lparr>lmax := 767\<rparr>) {}) = Inr m)"
proof -
  let ?c = "example_config [(''A'', map_set_entry 2 ''sat'' ''a''), (''B'', map_set_entry 3 ''lat'' ''b'')]"
  have n: "nside ?c = 256" and l: "?c\<lparr>lmax := 767\<rparr> = ?c"
    by (simp_all add: example_config_def)
  obtain m d where "bbmeta_init ?c {} = (Inr m, d)"
    using example_init by blast
  then have "fst (bbmeta_init (?c\<lparr>lmax := 767\<rparr>) {}) = Inr m"
    by (simp add: l)
  then have "\<exists>l0 m0. fst (bbmeta_init (?c\<lparr>lmax := l0\<rparr>) {}) = Inr m0"
    by blast
  with lmax_check[of ?c "{}"] show ?thesis
    by (simp add: n)
qed

section \<open>Properties of the pair enumeration\<close>

lemma ebind_Inr [simp]: "ebind (Inr x) f = f x"
  by (simp add: ebind_def)

lemma ebind_Inl [simp]: "ebind (Inl e) f = Inl e"
  by (simp add: ebind_def)


subsection \<open>All pairs of map sets\<close>

lemma ps_keep_coadd_all:
  "ps_keep m ''all'' True (i, a) (j, b) = Inr (i \<le> j)"
  by (simp add: ps_keep_def)

lemma ps_inner_coadd_all:
  "ps_inner m ''all'' True (i, a) (enumerate k ys) acc =
     Inr (acc @ map (Pair a) (drop (i - k) ys))"
proof (induction ys arbitrary: k acc)
  case Nil
  show ?case by simp
next
  case (Cons y ys)
  show ?case
  proof (cases "i \<le> k")
    case True
    then show ?thesis
      by (simp add: ps_keep_coadd_all ebind_def Cons.IH)
  next
    case False
    then have "i - k = Suc (i - Suc k)" by simp
    with False show ?thesis
      by (simp add: ps_keep_coadd_all ebind_def Cons.IH)
  qed
qed

lemma ps_outer_coadd_all:
  "ps_outer m ''all'' True (enumerate (length pre) xs) (enumerate 0 (pre @ xs)) acc =
     Inr (acc @ upper_pairs xs)"
proof (induction xs arbitrary: pre acc)
  case Nil
  show ?case by simp
next
  case (Cons x xs)
  have "ps_outer m ''all'' True (enumerate (Suc (length pre)) xs) (enumerate 0 (pre @ x # xs)) acc' =
      Inr (acc' @ upper_pairs xs)" for acc'
    using Cons.IH[of "pre @ [x]" acc'] by simp
  then show ?case
    by (simp add: ps_inner_coadd_all ebind_def)
qed

lemma length_upper_pairs: "2 * length (upper_pairs xs) = length xs * (length xs + 1)"
  by (induction xs) simp_all

lemma set_upper_pairs: "set (upper_pairs xs) \<subseteq> set xs \<times> set xs"
  by (induction xs) auto

lemma distinct_upper_pairs: "distinct xs \<Longrightarrow> distinct (upper_pairs xs)"
proof (induction xs)
  case Nil
  show ?case by simp
next
  case (Cons x xs)
  have "(x, y) \<notin> set (upper_pairs xs)" for y
    using Cons.prems set_upper_pairs[of xs] by auto
  with Cons show ?case
    by (auto simp: distinct_map inj_on_def)
qed

lemma upper_pairs_nth:
  "upper_pairs xs = concat (map (\<lambda>i. map (\<lambda>j. (xs ! i, xs ! j)) [i..<length xs]) [0..<length xs])"
proof (induction xs)
  case Nil
  show ?case by simp
next
  case (Cons x xs)
  let ?F = "\<lambda>ys i. map (\<lambda>j. (ys ! i, ys ! j)) [i..<length ys]"
  have upt0: "[0..<Suc n] = 0 # map Suc [0..<n]" for n :: nat
    by (metis map_Suc_upt upt_conv_Cons zero_less_Suc)
  have row: "?F (x # xs) 0 = map (Pair x) (x # xs)"
    by (rule nth_equalityI) (auto simp: nth_Cons' simp del: upt_Suc)
  have "?F (x # xs) (Suc i) = ?F xs i" for i
  proof -
    have "[Suc i..<length (x # xs)] = map Suc [i..<length xs]"
      by (simp add: map_Suc_upt del: upt_Suc)
    then show ?thesis
      by (simp add: comp_def del: upt_Suc)
  qed
  then have rest: "map (?F (x # xs) \<circ> Suc) [0..<length xs] = map (?F xs) [0..<length xs]"
    by (simp add: comp_def del: upt_Suc)
  have "concat (map (?F (x # xs)) [0..<length (x # xs)]) =
      ?F (x # xs) 0 @ concat (map (?F (x # xs) \<circ> Suc) [0..<length xs])"
    by (simp only: length_Cons upt0 list.map concat.simps map_map)
  also have "\<dots> = map (Pair x) (x # xs) @ concat (map (?F xs) [0..<length xs])"
    by (simp only: row rest)
  also have "\<dots> = upper_pairs (x # xs)"
    using Cons.IH by simp
  finally show ?case by simp
qed

text \<open>
  C4: with \<open>type = "all"\<close> and \<open>coadd = True\<close>, for \<open>n\<close> distinct map-set identifiers the
  result has exactly \<open>n (n + 1) / 2\<close> pairs; it is the list of the pairs
  \<open>(entities[i], entities[j])\<close> with \<open>i \<le> j\<close>, in row-major order, without duplicates.
\<close>

theorem ps_names_all_coadd:
  assumes "distinct (map_sets_list m)"
  shows "\<exists>ps. get_ps_names_list m ''all'' True = Inr ps
    \<and> 2 * length ps = length (map_sets_list m) * (length (map_sets_list m) + 1)
    \<and> length ps = length (map_sets_list m) * (length (map_sets_list m) + 1) div 2
    \<and> ps = concat (map (\<lambda>i. map (\<lambda>j. (map_sets_list m ! i, map_sets_list m ! j))
                 [i..<length (map_sets_list m)]) [0..<length (map_sets_list m)])
    \<and> distinct ps"
proof -
  have "get_ps_names_list m ''all'' True = Inr (upper_pairs (map_sets_list m))"
    using ps_outer_coadd_all[of m "[]" "map_sets_list m" "[]"]
    by (simp add: get_ps_names_list_def)
  moreover have "length (upper_pairs (map_sets_list m)) = length (map_sets_list m) * (length (map_sets_list m) + 1) div 2"
    using length_upper_pairs[of "map_sets_list m"] by linarith
  ultimately show ?thesis
    using length_upper_pairs[of "map_sets_list m"] upper_pairs_nth[of "map_sets_list m"]
      distinct_upper_pairs[OF assms] by simp
qed

subsection \<open>The result as a filter of the candidate pairs\<close>

lemma ps_inner_Inr:
  assumes "ps_inner m ty co p1 ys acc = Inr ps"
  shows "ps = acc @ map (\<lambda>p2. (snd p1, snd p2)) (filter (\<lambda>p2. ps_keep m ty co p1 p2 = Inr True) ys)
    \<and> (\<forall>p2 \<in> set ys. \<exists>k. ps_keep m ty co p1 p2 = Inr k)"
  using assms
proof (induction ys arbitrary: acc)
  case Nil
  then show ?case by simp
next
  case (Cons y ys)
  from Cons.prems obtain k where k: "ps_keep m ty co p1 y = Inr k"
    and r: "ps_inner m ty co p1 ys (if k then acc @ [(snd p1, snd y)] else acc) = Inr ps"
    by (auto simp: ebind_Inr_iff)
  from Cons.IH[OF r] k show ?case
    by (cases k) auto
qed

lemma ps_outer_Inr:
  assumes "ps_outer m ty co xs it acc = Inr ps"
  shows "ps = acc @ concat (map (\<lambda>p1. map (\<lambda>p2. (snd p1, snd p2))
              (filter (\<lambda>p2. ps_keep m ty co p1 p2 = Inr True) it)) xs)
    \<and> (\<forall>p1 \<in> set xs. \<forall>p2 \<in> set it. \<exists>k. ps_keep m ty co p1 p2 = Inr k)"
  using assms
proof (induction xs arbitrary: acc)
  case Nil
  then show ?case by simp
next
  case (Cons x xs)
  from Cons.prems obtain acc' where i: "ps_inner m ty co x it acc = Inr acc'"
    and r: "ps_outer m ty co xs it acc' = Inr ps"
    by (auto simp: ebind_Inr_iff)
  from ps_inner_Inr[OF i] Cons.IH[OF r] show ?case
    by auto
qed

lemma in_concat_map: "x \<in> set (concat (map f xs)) \<longleftrightarrow> (\<exists>y\<in>set xs. x \<in> set (f y))"
  by simp

lemma in_map_filter: "z \<in> set (map g (filter P ys)) \<longleftrightarrow> (\<exists>y\<in>set ys. P y \<and> z = g y)"
  by (simp add: image_iff) blast

lemma get_ps_names_list_Inr:
  assumes "get_ps_names_list m ty co = Inr ps"
  shows "(a, b) \<in> set ps \<longleftrightarrow>
      (\<exists>i j. (i, a) \<in> set (enumerate 0 (if co then map_sets_list m else maps_list m))
        \<and> (j, b) \<in> set (enumerate 0 (if co then map_sets_list m else maps_list m))
        \<and> ps_keep m ty co (i, a) (j, b) = Inr True)"
    and "p1 \<in> set (enumerate 0 (if co then map_sets_list m else maps_list m)) \<Longrightarrow>
      p2 \<in> set (enumerate 0 (if co then map_sets_list m else maps_list m)) \<Longrightarrow>
      \<exists>k. ps_keep m ty co p1 p2 = Inr k"
proof -
  define it where "it = enumerate 0 (if co then map_sets_list m else maps_list m)"
  from assms have "ps_outer m ty co it it [] = Inr ps"
    by (simp add: get_ps_names_list_def Let_def it_def)
  from ps_outer_Inr[OF this]
  have ps: "ps = concat (map (\<lambda>p1. map (\<lambda>p2. (snd p1, snd p2))
              (filter (\<lambda>p2. ps_keep m ty co p1 p2 = Inr True) it)) it)"
    and ok: "\<forall>p1 \<in> set it. \<forall>p2 \<in> set it. \<exists>k. ps_keep m ty co p1 p2 = Inr k"
    by simp_all
  have mem: "(a, b) \<in> set ps \<longleftrightarrow>
      (\<exists>p1\<in>set it. \<exists>p2\<in>set it. ps_keep m ty co p1 p2 = Inr True \<and> (a, b) = (snd p1, snd p2))"
    by (simp only: ps in_concat_map in_map_filter)
  have "(a, b) \<in> set ps \<longleftrightarrow>
      (\<exists>i j. (i, a) \<in> set it \<and> (j, b) \<in> set it \<and> ps_keep m ty co (i, a) (j, b) = Inr True)"
  proof
    assume "(a, b) \<in> set ps"
    with mem obtain p1 p2 where p1: "p1 \<in> set it" and p2: "p2 \<in> set it"
      and k: "ps_keep m ty co p1 p2 = Inr True" and e: "(a, b) = (snd p1, snd p2)"
      by blast
    from e have "p1 = (fst p1, a)" and "p2 = (fst p2, b)" by simp_all
    with p1 p2 k have "(fst p1, a) \<in> set it \<and> (fst p2, b) \<in> set it
        \<and> ps_keep m ty co (fst p1, a) (fst p2, b) = Inr True"
      by metis
    then show "\<exists>i j. (i, a) \<in> set it \<and> (j, b) \<in> set it \<and> ps_keep m ty co (i, a) (j, b) = Inr True"
      by blast
  next
    assume "\<exists>i j. (i, a) \<in> set it \<and> (j, b) \<in> set it \<and> ps_keep m ty co (i, a) (j, b) = Inr True"
    then obtain i j where i: "(i, a) \<in> set it" and j: "(j, b) \<in> set it"
      and k: "ps_keep m ty co (i, a) (j, b) = Inr True"
      by blast
    have "(a, b) = (snd (i, a), snd (j, b))" by simp
    with i j k show "(a, b) \<in> set ps"
      unfolding mem by blast
  qed
  then show "(a, b) \<in> set ps \<longleftrightarrow>
      (\<exists>i j. (i, a) \<in> set (enumerate 0 (if co then map_sets_list m else maps_list m))
        \<and> (j, b) \<in> set (enumerate 0 (if co then map_sets_list m else maps_list m))
        \<and> ps_keep m ty co (i, a) (j, b) = Inr True)"
    unfolding it_def .
  show "\<exists>k. ps_keep m ty co p1 p2 = Inr k"
    if "p1 \<in> set (enumerate 0 (if co then map_sets_list m else maps_list m))"
      and "p2 \<in> set (enumerate 0 (if co then map_sets_list m else maps_list m))"
    using ok that unfolding it_def by blast
qed









subsection \<open>The example configuration\<close>

lemma example_dirs:
  "fst (set_directory_attributes (example_config ms) {}) = Inr (dir_attrs (example_meta ms ml))"
  by (simp add: set_directory_attributes_def example_config_def example_meta_def dict_get_def Let_def)

lemma example_config_simps:
  "map_sets (example_config ms) = ms"
  "masks (example_config ms) =
      [(''galactic_mask_root'', ''gal''), (''gal_mask_mode'', ''m''),
       (''binary_mask'', ''bin.fits''), (''point_source_mask'', ''ps.fits''),
       (''analysis_mask'', ''an.fits'')]"
  "sim_pars (example_config ms) = [(''num_sims'', YInt 10), (''cosmology'', YStr ''c''), (''mock_nsrcs'', YInt 5),
       (''mock_srcs_hole_radius'', YInt 40), (''hitmap_file'', YStr ''h.fits'')]"
  "binning_file (example_config ms) = ''binning.npz''"
  "lmax (example_config ms) = 767" "nside (example_config ms) = 256"
  by (simp_all add: example_config_def)

lemma example_meta_simps:
  "m_config (example_meta ms ml) = example_config ms"
  "getters (example_meta ms ml) = [''n_splits'', ''exp_tag'', ''file_root'']"
  "map_sets_list (example_meta ms ml) = map fst ms"
  "maps_list (example_meta ms ml) = ml"
  "dir_attrs (example_meta ms ml) ''pre_process_directory'' = Some ''out/pre''"
  "dir_attrs (example_meta ms ml) ''mask_directory'' = Some ''data/masks''"
  "dir_attrs (example_meta ms ml) ''sims_directory'' = Some ''out/sims''"
  "dir_attrs (example_meta ms ml) ''map_directory'' = Some ''data/maps''"
  by (simp_all add: example_meta_def)

lemma init_attributes_InrI:
  assumes "getattr a ''pre_process_directory'' = Inr pre"
    and "map_sets c = (k, e) # rest"
    and "dict_get (map_sets c) k = Inr fe"
    and "get_map_list (map fst fe) (map_sets c) (map fst (map_sets c)) = Inr ml"
    and "mask_names_of a (masks c) [''binary'', ''galactic'', ''point_source'', ''analysis''] = Inr mn"
    and "init_simulation_params (sim_pars c)
      [''num_sims'', ''cosmology'', ''mock_nsrcs'', ''mock_srcs_hole_radius'', ''hitmap_file''] = Inr sa"
  shows "init_attributes c a =
    Inr \<lparr> m_config = c, dir_attrs = a, getters = map fst fe, map_sets_list = map fst (map_sets c),
          maps_list = ml, path_to_binning = pre @ ''/'' @ binning_file c,
          mask_names = mn, sim_attrs = sa \<rparr>"
proof -
  have first: "(case map_sets c of [] \<Rightarrow> Inl StopIteration | (k, entry) # _ \<Rightarrow> dict_get (map_sets c) k) = Inr fe"
    using assms(3) by (simp add: assms(2))
  show ?thesis
    unfolding init_attributes_def assms(1) first Let_def assms(4) assms(5) assms(6) ebind_Inr ..
qed

lemma example_init_meta:
  assumes "get_map_list [''n_splits'', ''exp_tag'', ''file_root'']
      ((k, map_set_entry n t r) # rest) (k # map fst rest) = Inr ml"
  shows "fst (bbmeta_init (example_config ((k, map_set_entry n t r) # rest)) {}) =
    Inr (example_meta ((k, map_set_entry n t r) # rest) ml)"
proof -
  define ms where "ms = (k, map_set_entry n t r) # rest"
  define a where "a = dir_attrs (example_meta ms ml)"
  have sd: "fst (set_directory_attributes (example_config ms) {}) = Inr a"
    unfolding a_def by (rule example_dirs)
  have g: "map fst (map_set_entry n t r) = [''n_splits'', ''exp_tag'', ''file_root'']"
    by (simp add: map_set_entry_def)
  have mn: "mask_names_of a (masks (example_config ms)) [''binary'', ''galactic'', ''point_source'', ''analysis'']
      = Inr (mask_names (example_meta ms ml))"
    by (simp add: example_config_simps a_def mask_name_def getattr_def example_meta_simps dict_get_def
        os_path_join_def) (simp add: example_meta_def)
  have sp: "init_simulation_params (sim_pars (example_config ms))
      [''num_sims'', ''cosmology'', ''mock_nsrcs'', ''mock_srcs_hole_radius'', ''hitmap_file'']
      = Inr (sim_attrs (example_meta ms ml))"
    by (simp add: example_config_simps dict_get_def example_meta_def)
  have pre: "getattr a ''pre_process_directory'' = Inr ''out/pre''"
    by (simp add: a_def getattr_def example_meta_simps)
  have m1: "map_sets (example_config ms) = (k, map_set_entry n t r) # rest"
    by (simp add: example_config_simps ms_def)
  have fe: "dict_get (map_sets (example_config ms)) k = Inr (map_set_entry n t r)"
    by (simp add: m1 dict_get_def)
  have ml: "get_map_list (map fst (map_set_entry n t r)) (map_sets (example_config ms))
      (map fst (map_sets (example_config ms))) = Inr ml"
    unfolding g m1 using assms by simp
  have "init_attributes (example_config ms) a = Inr (example_meta ms ml)"
    unfolding init_attributes_InrI[OF pre m1 fe ml mn sp]
    by (simp add: example_meta_def example_config_simps g a_def)
  then have "fst (bbmeta_init (example_config ms) {}) = Inr (example_meta ms ml)"
    using sd by (cases "set_directory_attributes (example_config ms) {}")
      (simp add: bbmeta_init_def init_after_dirs_def example_config_simps)
  then show ?thesis
    unfolding ms_def .
qed

lemma init_meta_A:
  "fst (bbmeta_init (example_config [(''A'', map_set_entry 2 ''sat'' r)]) {}) = Inr (meta_A r)"
proof -
  have "get_map_list [''n_splits'', ''exp_tag'', ''file_root'']
      ((''A'', map_set_entry 2 ''sat'' r) # []) (''A'' # map fst []) = Inr [''A__0'', ''A__1'']"
    by (simp add: from_map_set_def dict_get_def map_set_entry_def range_yval_2 str_int_0 str_int_1
        del: range_yval.simps)
  from example_init_meta[OF this] show ?thesis
    by (simp add: meta_A_def)
qed

lemma meta_A_simps:
  "maps_list (meta_A r) = [''A__0'', ''A__1'']"
  "map_sets_list (meta_A r) = [''A'']"
  "exp_tag_from_map_set (meta_A r) ''A'' = Inr (YStr ''sat'')"
  "from_map_set (getters (meta_A r)) (map_sets (m_config (meta_A r))) ''file_root'' ''A'' = Inr (YStr r)"
  "dir_attrs (meta_A r) ''sims_directory'' = Some ''out/sims''"
  by (simp_all add: meta_A_def example_meta_simps example_config_simps exp_tag_from_map_set_def
      from_map_set_def dict_get_def map_set_entry_def)

subsection \<open>Auto and cross pairs\<close>

text \<open>
  With \<open>coadd = True\<close> the two filters are complementary on the upper triangle, and for
  distinct map-set identifiers the two results share no pair.
\<close>

lemma ps_keep_coadd_auto: "ps_keep m ''auto'' True (i, a) (j, b) = Inr (i = j)"
  by (simp add: ps_keep_def)

lemma ps_keep_coadd_cross: "ps_keep m ''cross'' True (i, a) (j, b) = Inr (i < j)"
  by (simp add: ps_keep_def)

lemma coadd_auto_cross_disjoint:
  assumes d: "distinct (map_sets_list m)"
    and au: "get_ps_names_list m ''auto'' True = Inr ps_auto"
    and cr: "get_ps_names_list m ''cross'' True = Inr ps_cross"
  shows "set ps_auto \<inter> set ps_cross = {}"
proof -
  have it: "enumerate 0 (if True then map_sets_list m else maps_list m) = enumerate 0 (map_sets_list m)"
    by simp
  have "a = b" if "(a, b) \<in> set ps_auto" for a b
  proof -
    from that get_ps_names_list_Inr(1)[OF au, unfolded it, of a b]
    obtain i j where "(i, a) \<in> set (enumerate 0 (map_sets_list m))"
      and "(j, b) \<in> set (enumerate 0 (map_sets_list m))"
      and "ps_keep m ''auto'' True (i, a) (j, b) = Inr True"
      by blast
    then show ?thesis
      by (simp add: ps_keep_coadd_auto in_set_enumerate_eq)
  qed
  moreover have "a \<noteq> b" if "(a, b) \<in> set ps_cross" for a b
  proof -
    from that get_ps_names_list_Inr(1)[OF cr, unfolded it, of a b]
    obtain i j where "(i, a) \<in> set (enumerate 0 (map_sets_list m))"
      and "(j, b) \<in> set (enumerate 0 (map_sets_list m))"
      and "ps_keep m ''cross'' True (i, a) (j, b) = Inr True"
      by blast
    then have i: "i < length (map_sets_list m)" and j: "j < length (map_sets_list m)" and ij: "i < j"
      and a: "map_sets_list m ! i = a" and b: "map_sets_list m ! j = b"
      by (simp_all add: ps_keep_coadd_cross in_set_enumerate_eq)
    from d i j ij have "map_sets_list m ! i \<noteq> map_sets_list m ! j"
      by (simp add: nth_eq_iff_index_eq)
    then show ?thesis
      by (simp only: a b not_False_eq_True)
  qed
  ultimately have "x \<notin> set ps_cross" if "x \<in> set ps_auto" for x
    using that by (cases x) blast
  then show ?thesis
    by blast
qed

text \<open>
  C1: the claim is that the results for \<open>type = "auto"\<close> and for \<open>type = "cross"\<close> share no
  pair, for both values of \<open>coadd\<close>. With \<open>coadd = False\<close> the \<open>auto\<close> filter skips a pair
  only when both the tags and the splits differ, and the \<open>cross\<close> filter only when both are
  equal; a pair with equal tags and different splits passes both. On the object the
  constructor builds for one map set of two splits, both results hold \<open>(A__0, A__1)\<close>.
\<close>

theorem auto_cross_share_pair:
  "fst (bbmeta_init (example_config [(''A'', map_set_entry 2 ''sat'' ''a'')]) {}) = Inr (meta_A ''a'')
   \<and> get_ps_names_list (meta_A ''a'') ''auto'' False =
       Inr [(''A__0'', ''A__0''), (''A__0'', ''A__1''), (''A__1'', ''A__1'')]
   \<and> get_ps_names_list (meta_A ''a'') ''cross'' False = Inr [(''A__0'', ''A__1'')]"
proof (intro conjI)
  show "fst (bbmeta_init (example_config [(''A'', map_set_entry 2 ''sat'' ''a'')]) {}) = Inr (meta_A ''a'')"
    by (rule init_meta_A)
  show "get_ps_names_list (meta_A ''a'') ''auto'' False =
       Inr [(''A__0'', ''A__0''), (''A__0'', ''A__1''), (''A__1'', ''A__1'')]"
    by (simp add: get_ps_names_list_def ps_keep_def meta_A_simps)
  show "get_ps_names_list (meta_A ''a'') ''cross'' False = Inr [(''A__0'', ''A__1'')]"
    by (simp add: get_ps_names_list_def ps_keep_def meta_A_simps)
qed

lemma init_meta_AB:
  "fst (bbmeta_init (example_config [(''A'', map_set_entry 2 ''sat'' ''a''), (''B'', map_set_entry 3 ''lat'' ''b'')]) {})
    = Inr meta_AB"
proof -
  have ne: "''A'' \<noteq> ''B''" by simp
  have a: "map_of (map_set_entry 2 ''sat'' ''a'') ''n_splits'' = Some (YInt 2)"
    and b: "map_of (map_set_entry 3 ''lat'' ''b'') ''n_splits'' = Some (YInt 3)"
    and g: "map fst (map_set_entry 2 ''sat'' ''a'') = [''n_splits'', ''exp_tag'', ''file_root'']"
    by (simp_all add: map_set_entry_def)
  have "get_map_list [''n_splits'', ''exp_tag'', ''file_root'']
      ((''A'', map_set_entry 2 ''sat'' ''a'') # [(''B'', map_set_entry 3 ''lat'' ''b'')])
      (''A'' # map fst [(''B'', map_set_entry 3 ''lat'' ''b'')]) =
      Inr [''A__0'', ''A__1'', ''B__0'', ''B__1'', ''B__2'']"
    using get_map_list_two[OF ne a b] unfolding g by simp
  from example_init_meta[OF this] show ?thesis
    by (simp add: meta_AB_def)
qed

lemma meta_AB_simps:
  "map_sets_list meta_AB = [''A'', ''B'']"
  by (simp add: meta_AB_def example_meta_simps)

theorem ps_names_all_coadd_witness:
  "distinct (map_sets_list meta_AB)
   \<and> get_ps_names_list meta_AB ''all'' True = Inr [(''A'', ''A''), (''A'', ''B''), (''B'', ''B'')]
   \<and> length [(''A'', ''A''), (''A'', ''B''), (''B'', ''B'')] = length (map_sets_list meta_AB) * (length (map_sets_list meta_AB) + 1) div 2"
proof -
  have d: "distinct (map_sets_list meta_AB)"
    by (simp add: meta_AB_simps)
  have u: "[0..<2] = [0, 1]" "[1..<2] = [1]"
    by (simp_all add: upt_rec)
  from ps_names_all_coadd[OF d] obtain ps where "get_ps_names_list meta_AB ''all'' True = Inr ps"
    and "ps = concat (map (\<lambda>i. map (\<lambda>j. (map_sets_list meta_AB ! i, map_sets_list meta_AB ! j))
                 [i..<length (map_sets_list meta_AB)]) [0..<length (map_sets_list meta_AB)])"
    by blast
  then have "get_ps_names_list meta_AB ''all'' True = Inr [(''A'', ''A''), (''A'', ''B''), (''B'', ''B'')]"
    by (simp add: meta_AB_simps u)
  with d show ?thesis
    by (simp add: meta_AB_simps)
qed


section \<open>Properties of the path resolution\<close>










section \<open>Properties of the pseudo-spectrum routine\<close>

subsection \<open>The pair iterator\<close>

lemma cl_pair_inner_eq:
  "cl_pair_inner icl i js = (map (\<lambda>(k, j). (k, i, j)) (enumerate icl js), icl + length js)"
  by (induction js arbitrary: icl) simp_all

lemma enumerate_map_Pair:
  "map (\<lambda>(k, j). (k, i, j)) (enumerate icl js) =
   map (\<lambda>(k, p). (k, fst p, snd p)) (enumerate icl (map (Pair i) js))"
  by (induction js arbitrary: icl) simp_all

lemma cl_pair_outer_eq:
  "cl_pair_outer icl n is =
     map (\<lambda>(k, p). (k, fst p, snd p)) (enumerate icl (concat (map (\<lambda>i. map (Pair i) [i..<n]) is)))"
proof (induction "is" arbitrary: icl)
  case Nil
  show ?case by simp
next
  case (Cons i "is")
  show ?case
    by (simp add: cl_pair_inner_eq Cons.IH enumerate_append_eq enumerate_map_Pair del: upt_Suc)
qed

lemma upper_pairs_upt:
  "upper_pairs [0..<n] = concat (map (\<lambda>i. map (Pair i) [i..<n]) [0..<n])"
proof -
  have row: "map (\<lambda>j. ([0..<n] ! i, [0..<n] ! j)) [i..<n] = map (Pair i) [i..<n]" if "i < n" for i
    using that by (intro map_cong[OF refl]) simp
  have rows: "map (\<lambda>i. map (\<lambda>j. ([0..<n] ! i, [0..<n] ! j)) [i..<n]) [0..<n]
      = map (\<lambda>i. map (Pair i) [i..<n]) [0..<n]"
    by (intro map_cong[OF refl] row) simp
  have "upper_pairs [0..<n] =
      concat (map (\<lambda>i. map (\<lambda>j. ([0..<n] ! i, [0..<n] ! j)) [i..<n]) [0..<n])"
    using upper_pairs_nth[of "[0..<n]"] by (simp only: length_upt diff_zero)
  then show ?thesis
    by (simp only: rows)
qed

lemma cl_pair_iter_eq:
  "cl_pair_iter n = map (\<lambda>(k, p). (k, fst p, snd p)) (enumerate 0 (upper_pairs [0..<nat n]))"
  by (simp add: cl_pair_iter_def cl_pair_outer_eq upper_pairs_upt del: upt_Suc)

lemma length_cl_pair_iter: "length (cl_pair_iter n) = nat n * (nat n + 1) div 2"
  using length_upper_pairs[of "[0..<nat n]"] by (simp add: cl_pair_iter_eq del: upt_Suc)

lemma map_fst_cl_pair_iter: "map fst (cl_pair_iter n) = [0..<length (cl_pair_iter n)]"
proof -
  have "map fst (map (\<lambda>(k, p). (k, fst p, snd p)) (enumerate 0 ps)) = map fst (enumerate 0 ps)" for ps :: "(nat \<times> nat) list"
    by (simp add: comp_def case_prod_beta)
  then show ?thesis
    by (simp add: cl_pair_iter_eq del: upt_Suc)
qed

lemma map_snd_cl_pair_iter: "map snd (cl_pair_iter n) = upper_pairs [0..<nat n]"
proof -
  have "map snd (map (\<lambda>(k, p). (k, fst p, snd p)) (enumerate 0 ps)) = map snd (enumerate 0 ps)" for ps :: "(nat \<times> nat) list"
    by (simp add: comp_def case_prod_beta)
  then show ?thesis
    by (simp add: cl_pair_iter_eq del: upt_Suc)
qed

lemma set_upper_pairs_upt: "set (upper_pairs [0..<n]) = {(i, j). i \<le> j \<and> j < n}"
proof -
  have "(a, b) \<in> set (upper_pairs [0..<n]) \<longleftrightarrow> a \<le> b \<and> b < n" for a b
  proof
    assume "(a, b) \<in> set (upper_pairs [0..<n])"
    then show "a \<le> b \<and> b < n"
      unfolding upper_pairs_upt by auto
  next
    assume "a \<le> b \<and> b < n"
    then have "a \<in> set [0..<n]" and "(a, b) \<in> set (map (Pair a) [a..<n])"
      by simp_all
    then show "(a, b) \<in> set (upper_pairs [0..<n])"
      unfolding upper_pairs_upt in_concat_map by (rule bexI[rotated])
  qed
  then show ?thesis by auto
qed

lemma compute_cls_Inr:
  assumes "compute_cls x b winv flds ts acc = Inr cls"
  shows "length cls = length acc + length ts \<and> take (length acc) cls = acc
    \<and> (\<forall>k < length ts. pcl_of x b winv flds (fst (snd (ts ! k))) (snd (snd (ts ! k)))
          = Inr (cls ! (length acc + k)))"
  using assms
proof (induction ts arbitrary: acc)
  case Nil
  then show ?case by simp
next
  case (Cons t ts)
  obtain icl i j where t: "t = (icl, i, j)" by (cases t) auto
  from Cons.prems obtain pcl where p: "pcl_of x b winv flds i j = Inr pcl"
    and r: "compute_cls x b winv flds ts (acc @ [pcl]) = Inr cls"
    unfolding t by (auto simp: ebind_Inr_iff)
  from Cons.IH[OF r] have len: "length cls = length acc + 1 + length ts"
    and tk: "take (length acc + 1) cls = acc @ [pcl]"
    and rest: "\<forall>k < length ts. pcl_of x b winv flds (fst (snd (ts ! k))) (snd (snd (ts ! k)))
          = Inr (cls ! (length acc + 1 + k))"
    by simp_all
  have "take (length acc) (take (length acc + 1) cls) = take (length acc) cls"
    by (simp add: min_def)
  with tk have tk0: "take (length acc) cls = acc"
    by simp
  have "take (length acc + 1) cls ! length acc = cls ! length acc"
    by (rule nth_take) simp
  with tk have at: "cls ! length acc = pcl"
    by simp
  have "pcl_of x b winv flds (fst (snd ((t # ts) ! k))) (snd (snd ((t # ts) ! k)))
          = Inr (cls ! (length acc + k))" if "k < length (t # ts)" for k
  proof (cases k)
    case 0
    with p at show ?thesis by (simp add: t)
  next
    case (Suc k')
    with that rest show ?thesis by simp
  qed
  with len tk0 show ?case by simp
qed

lemma compute_cls_pair_iter:
  assumes "compute_cls x b winv flds (cl_pair_iter n) [] = Inr cls"
    and "(icl, i, j) \<in> set (cl_pair_iter n)"
  shows "icl < length cls \<and> pcl_of x b winv flds i j = Inr (cls ! icl)"
proof -
  from assms(2) obtain k where k: "k < length (cl_pair_iter n)" and e: "cl_pair_iter n ! k = (icl, i, j)"
    unfolding in_set_conv_nth by blast
  have "fst (cl_pair_iter n ! k) = map fst (cl_pair_iter n) ! k"
    using k by simp
  also have "\<dots> = k"
    using k by (simp only: map_fst_cl_pair_iter nth_upt add_0)
  finally have "icl = k"
    by (simp add: e)
  from compute_cls_Inr[OF assms(1)] have len: "length cls = length (cl_pair_iter n)"
    and all: "\<forall>k < length (cl_pair_iter n). pcl_of x b winv flds (fst (snd (cl_pair_iter n ! k)))
        (snd (snd (cl_pair_iter n ! k))) = Inr (cls ! (length ([] :: ndarray list) + k))"
    by simp_all
  from all k have "pcl_of x b winv flds (fst (snd (cl_pair_iter n ! k)))
        (snd (snd (cl_pair_iter n ! k))) = Inr (cls ! k)"
    by simp
  with e \<open>icl = k\<close> k len show ?thesis
    by simp
qed

subsection \<open>Rounding\<close>

lemma round_even_of_int: "round_even (of_int k) = k"
  by (simp add: round_even_def)

lemma fl_0: "fl 0 = Finite 0"
  by (simp add: fl_def round_even_def Let_def)

lemma fl_representable:
  assumes "representable x"
  shows "fl x = Finite x"
proof (cases "x = 0")
  case True
  then show ?thesis by (simp add: fl_0)
next
  case False
  from assms obtain m e :: int where m: "\<bar>m\<bar> < 2 ^ 53" and e: "- 1074 \<le> e" "e \<le> 971"
    and x: "x = of_int m * 2 powr of_int e"
    unfolding representable_def by blast
  define k where "k = \<lfloor>log 2 \<bar>x\<bar>\<rfloor>"
  define E where "E = max (k - 52) (- 1074)"
  have ax: "\<bar>x\<bar> = of_int \<bar>m\<bar> * 2 powr of_int e"
    by (simp add: x abs_mult)
  have lt: "\<bar>x\<bar> < 2 powr of_int (e + 53)"
  proof -
    have "real_of_int \<bar>m\<bar> < 2 ^ 53"
      using m by (metis of_int_less_numeral_power_cancel_iff)
    then have "\<bar>x\<bar> < 2 ^ 53 * 2 powr of_int e"
      unfolding ax by (intro mult_strict_right_mono) simp_all
    also have "\<dots> = 2 powr of_int (e + 53)"
      by (simp add: powr_add powr_realpow[symmetric])
    finally show ?thesis .
  qed
  have "log 2 \<bar>x\<bar> < of_int (e + 53)"
    using lt False by (simp add: log_less_iff)
  then have "k < e + 53"
    unfolding k_def by (simp add: floor_less_iff)
  with e have Ee: "E \<le> e"
    unfolding E_def by simp
  define d where "d = nat (e - E)"
  have pw: "(2::real) powr of_int e = 2 ^ d * 2 powr of_int E"
  proof -
    have "of_int e = real d + of_int E"
      using Ee by (simp add: d_def)
    then show ?thesis
      by (simp add: powr_add powr_realpow)
  qed
  have q: "x / 2 powr of_int E = of_int (m * 2 ^ d)"
    by (simp add: x pw)
  have y: "of_int (round_even (x / 2 powr of_int E)) * 2 powr of_int E = x"
    unfolding q round_even_of_int by (simp add: x pw)
  have "\<bar>x\<bar> < 2 powr of_int (e + 53)"
    by (rule lt)
  also have "\<dots> \<le> 2 powr of_int 1024"
    using e by (intro powr_mono) simp_all
  also have "\<dots> = 2 ^ 1024"
    by (simp add: powr_realpow[symmetric])
  finally have small: "\<not> \<bar>x\<bar> \<ge> 2 ^ 1024"
    by simp
  show ?thesis
    unfolding fl_def Let_def k_def[symmetric] E_def[symmetric] y using small by simp
qed

lemma representable_of_nat:
  assumes "n < 2 ^ 53"
  shows "representable (real n)"
proof -
  have "\<bar>int n\<bar> < 2 ^ 53"
    using assms by (metis abs_of_nat of_nat_less_numeral_power_cancel_iff)
  moreover have "real n = of_int (int n) * 2 powr of_int 0"
    by simp
  ultimately show ?thesis
    unfolding representable_def by (intro exI[of _ "int n"] exI[of _ "0 :: int"]) simp
qed

lemma finite_float64:
  assumes "is_float64 v" and "isfinite v"
  obtains x where "v = Finite x" and "representable x"
  using assms by (cases v) simp_all

lemma fmul_one: "is_float64 v \<Longrightarrow> isfinite v \<Longrightarrow> fmul (Finite 1) v = v"
  by (erule (1) finite_float64) (simp add: fl_representable)

lemma fmul_zero: "isfinite v \<Longrightarrow> fmul (Finite 0) v = Finite 0"
  by (cases v) (simp_all add: fl_0)

lemma fadd_zero_left: "is_float64 v \<Longrightarrow> isfinite v \<Longrightarrow> fadd (Finite 0) v = v"
  by (erule (1) finite_float64) (simp add: fl_representable)

lemma fadd_zero_right: "is_float64 v \<Longrightarrow> isfinite v \<Longrightarrow> fadd v (Finite 0) = v"
  by (erule (1) finite_float64) (simp add: fl_representable)

lemma fadd_zero_zero: "fadd (Finite 0) (Finite 0) = Finite 0"
  by (simp add: fl_0)

subsection \<open>The product with the identity matrix\<close>

lemma foldl_delta:
  assumes "\<forall>k < m. is_float64 (v ! k) \<and> isfinite (v ! k)"
  shows "foldl fadd (Finite 0) (map (\<lambda>k. fmul (if i = k then Finite 1 else Finite 0) (v ! k)) [0..<m])
    = (if i < m then v ! i else Finite 0)"
  using assms
proof (induction m)
  case 0
  show ?case by simp
next
  case (Suc m)
  from Suc.prems have vm: "is_float64 (v ! m)" "isfinite (v ! m)"
    by simp_all
  from Suc.prems have IH: "foldl fadd (Finite 0) (map (\<lambda>k. fmul (if i = k then Finite 1 else Finite 0) (v ! k)) [0..<m])
    = (if i < m then v ! i else Finite 0)"
    by (intro Suc.IH) simp
  consider "i < m" | "i = m" | "m < i" by linarith
  then show ?case
  proof cases
    case 1
    with Suc.prems have "is_float64 (v ! i)" "isfinite (v ! i)"
      by simp_all
    with 1 vm IH show ?thesis
      by (simp add: fmul_zero fadd_zero_right)
  next
    case 2
    with vm IH show ?thesis
      by (simp add: fmul_one fadd_zero_left)
  next
    case 3
    with vm IH show ?thesis
      by (simp add: fmul_zero fl_0)
  qed
qed

lemma identity_entry:
  assumes "i < n" and "k < n"
  shows "map (\<lambda>k. if k div n = k mod n then Finite 1 else Finite 0) [0..<n * n] ! (i * n + k)
    = (if i = k then Finite 1 else Finite 0)"
proof -
  from assms(1) have "Suc i * n \<le> n * n"
    by (intro mult_le_mono1) simp
  with assms(2) have lt: "i * n + k < n * n"
    by simp
  have "(i * n + k) div n = i" and "(i * n + k) mod n = k"
    using assms(2) by simp_all
  with lt show ?thesis
    by simp
qed

lemma dot_identity:
  assumes "length v = n" and "list_all is_float64 v" and "list_all isfinite v"
  shows "map (\<lambda>i. foldl fadd (Finite 0) (map (\<lambda>k.
        fmul (map (\<lambda>k. if k div n = k mod n then Finite 1 else Finite 0) [0..<n * n] ! (i * n + k)) (v ! k)) [0..<n]))
      [0..<n] = v"
proof -
  from assms have fin: "\<forall>k < n. is_float64 (v ! k) \<and> isfinite (v ! k)"
    by (simp add: list_all_length)
  have row: "foldl fadd (Finite 0) (map (\<lambda>k.
        fmul (map (\<lambda>k. if k div n = k mod n then Finite 1 else Finite 0) [0..<n * n] ! (i * n + k)) (v ! k)) [0..<n])
      = v ! i" if "i < n" for i
  proof -
    have "map (\<lambda>k. fmul (map (\<lambda>k. if k div n = k mod n then Finite 1 else Finite 0) [0..<n * n] ! (i * n + k)) (v ! k)) [0..<n]
        = map (\<lambda>k. fmul (if i = k then Finite 1 else Finite 0) (v ! k)) [0..<n]"
      by (rule map_cong[OF refl]) (simp add: identity_entry[OF that] del: nth_map nth_upt)
    then show ?thesis
      using that foldl_delta[OF fin, of i] by (simp only: if_True)
  qed
  have "map (\<lambda>i. foldl fadd (Finite 0) (map (\<lambda>k.
        fmul (map (\<lambda>k. if k div n = k mod n then Finite 1 else Finite 0) [0..<n * n] ! (i * n + k)) (v ! k)) [0..<n]))
      [0..<n] = map (\<lambda>i. v ! i) [0..<n]"
    by (rule map_cong[OF refl]) (simp add: row)
  also have "\<dots> = v"
    using assms(1) map_nth[of v] by simp
  finally show ?thesis .
qed

lemma check_identity_winv:
  "check_winv b (Some (identity_winv (get_n_bands b))) = Inr (Some (identity_matrix (get_n_bands b)))"
  by (simp add: check_winv_def identity_winv_def identity_matrix_def reshape_def Let_def)

lemma deconvolve_identity_matrix:
  assumes "shape pcl = [4, nbpw]" and "wf_ndarray pcl"
    and "list_all is_float64 (items pcl)" and "list_all isfinite (items pcl)"
  shows "deconvolve (Some (identity_matrix nbpw)) nbpw pcl = Inr pcl"
proof -
  from assms have len: "length (items pcl) = 4 * nbpw"
    by (simp add: wf_ndarray_def)
  have dot: "np_dot (identity_matrix nbpw) (flatten pcl) = Inr \<lparr>shape = [4 * nbpw], items = items pcl\<rparr>"
    using dot_identity[OF len assms(3,4)]
    by (simp add: np_dot_def identity_matrix_def identity_winv_def flatten_def len)
  have "reshape [4, nbpw] \<lparr>shape = [4 * nbpw], items = items pcl\<rparr> = Inr pcl"
    using assms(1) len by (cases pcl) (simp add: reshape_def)
  with dot show ?thesis
    by (simp add: deconvolve_def)
qed

subsection \<open>The example run\<close>

lemma cl_pair_iter_2: "cl_pair_iter 2 = [(0, 0, 0), (1, 0, 1), (2, 1, 1)]"
  by (simp add: cl_pair_iter_def upt_rec)

lemma example_fields:
  "read_fields example_collab (0::nat) [''m0.fits'', ''m1.fits''] =
    (Inr [(0, 1, 2), (0, 3, 4)], [ReadMap ''m0.fits'', BuildField, ReadMap ''m1.fits'', BuildField])"
  by (simp add: example_collab_def)

lemma example_pcl_shape: "shape (example_pcl a) = [4, 2]" and example_pcl_wf: "wf_ndarray (example_pcl a)"
  by (simp_all add: example_pcl_def wf_ndarray_def)

lemma example_pcl_finite:
  assumes "a < 1000"
  shows "list_all is_float64 (items (example_pcl a))" and "list_all isfinite (items (example_pcl a))"
proof -
  have r: "representable (real a + real k)" if "k < 8" for k
    using representable_of_nat[of "a + k"] assms that by simp
  from r[of 0] r[of 1] r[of 2] r[of 3] r[of 4] r[of 5] r[of 6] r[of 7]
  show "list_all is_float64 (items (example_pcl a))"
    by (simp add: example_pcl_def)
  show "list_all isfinite (items (example_pcl a))"
    by (simp add: example_pcl_def)
qed

lemma example_pcl_of:
  "pcl_of example_collab example_binning None [(0, 1, 2), (0, 3, 4)] 0 1 = Inr (example_pcl 3)"
  by (simp add: pcl_of_def list_get_def example_collab_def example_binning_def deconvolve_def)

lemma example_cls:
  "compute_cls example_collab example_binning None [(0, 1, 2), (0, 3, 4)] (cl_pair_iter 2) [] =
    Inr [example_pcl 1, example_pcl 3, example_pcl 9]"
  by (simp add: cl_pair_iter_2 pcl_of_def list_get_def example_collab_def example_binning_def deconvolve_def)

subsection \<open>The shape check and the deconvolution\<close>

text \<open>
  C3: when \<open>winv\<close> is given and its shape is not \<open>(4, nbands, 4, nbands)\<close> for the
  binning scheme, \<open>get_pcls\<close> raises the shape error and nothing else has happened: no
  map was read, no field built, no archive saved.
\<close>

theorem get_pcls_shape_error:
  assumes "shape w \<noteq> [4, get_n_bands b, 4, get_n_bands b]"
  shows "get_pcls x fnames names fname_out msk b (Some w) = (Inl ValueError, [])"
  using assms by (simp add: get_pcls_def check_winv_def Let_def)

theorem get_pcls_shape_error_witness:
  "shape \<lparr>shape = [4, 1, 4, 1], items = replicate 16 (Finite 0)\<rparr>
      \<noteq> [4, get_n_bands example_binning, 4, get_n_bands example_binning]
   \<and> get_pcls example_collab [''m0.fits'', ''m1.fits''] [''a'', ''b''] ''out.fits'' (0 :: nat)
        example_binning (Some \<lparr>shape = [4, 1, 4, 1], items = replicate 16 (Finite 0)\<rparr>) = (Inl ValueError, [])"
proof -
  have h: "shape \<lparr>shape = [4, 1, 4, 1], items = replicate 16 (Finite 0)\<rparr>
      \<noteq> [4, get_n_bands example_binning, 4, get_n_bands example_binning]"
    by (simp add: example_binning_def)
  have "get_pcls example_collab [''m0.fits'', ''m1.fits''] [''a'', ''b''] ''out.fits'' (0 :: nat)
        example_binning (Some \<lparr>shape = [4, 1, 4, 1], items = replicate 16 (Finite 0)\<rparr>) = (Inl ValueError, [])"
    using h by (rule get_pcls_shape_error)
  with h show ?thesis
    by (rule conjI)
qed

text \<open>
  C5: the identity operator of shape \<open>(4, nbands, 4, nbands)\<close> passes the shape check, and
  deconvolving a binned spectrum of shape \<open>(4, nbands)\<close> with it gives the spectrum back
  when every item of the spectrum is finite; then the spectrum of a pair computed with the
  identity operator is the binned spectrum computed without an operator.
\<close>

theorem deconvolve_identity:
  "\<exists>w. check_winv b (Some (identity_winv (get_n_bands b))) = Inr (Some w)
     \<and> (shape pcl = [4, get_n_bands b] \<and> wf_ndarray pcl
        \<and> list_all is_float64 (items pcl) \<and> list_all isfinite (items pcl)
          \<longrightarrow> deconvolve (Some w) (get_n_bands b) pcl = Inr pcl)
     \<and> (pcl_of x b None flds i j = Inr pcl \<and> shape pcl = [4, get_n_bands b] \<and> wf_ndarray pcl
        \<and> list_all is_float64 (items pcl) \<and> list_all isfinite (items pcl)
          \<longrightarrow> pcl_of x b (Some w) flds i j = Inr pcl)"
proof (intro exI conjI impI)
  show "check_winv b (Some (identity_winv (get_n_bands b))) = Inr (Some (identity_matrix (get_n_bands b)))"
    by (rule check_identity_winv)
next
  assume "shape pcl = [4, get_n_bands b] \<and> wf_ndarray pcl
        \<and> list_all is_float64 (items pcl) \<and> list_all isfinite (items pcl)"
  then show "deconvolve (Some (identity_matrix (get_n_bands b))) (get_n_bands b) pcl = Inr pcl"
    by (simp add: deconvolve_identity_matrix)
next
  assume h: "pcl_of x b None flds i j = Inr pcl \<and> shape pcl = [4, get_n_bands b] \<and> wf_ndarray pcl
        \<and> list_all is_float64 (items pcl) \<and> list_all isfinite (items pcl)"
  then obtain f1 f2 c where "list_get flds i = Inr f1" and "list_get flds j = Inr f2"
    and "compute_coupled_cell x f1 f2 = Inr c" and "bin_cell b c = Inr pcl"
    by (auto simp: pcl_of_def ebind_Inr_iff deconvolve_def)
  with h show "pcl_of x b (Some (identity_matrix (get_n_bands b))) flds i j = Inr pcl"
    by (simp add: pcl_of_def deconvolve_identity_matrix)
qed

text \<open>
  As first stated, for every spectrum, the claim fails: where the binned spectrum holds an
  infinity, the products of the zeros of the identity operator with it are NaN, and the
  deconvolved spectrum is NaN in every other place.
\<close>

theorem deconvolve_identity_counterexample:
  "check_winv example_binning (Some (identity_winv (get_n_bands example_binning)))
      = Inr (Some (identity_matrix 2))
   \<and> pcl_of example_collab_inf example_binning None [(0, 1, 2), (0, 3, 4)] 0 1 =
       Inr \<lparr>shape = [4, 2], items = [PInf, Finite 0, Finite 0, Finite 0, Finite 0, Finite 0, Finite 0, Finite 0]\<rparr>
   \<and> pcl_of example_collab_inf example_binning (Some (identity_matrix 2)) [(0, 1, 2), (0, 3, 4)] 0 1 =
       Inr \<lparr>shape = [4, 2], items = [PInf, NaN, NaN, NaN, NaN, NaN, NaN, NaN]\<rparr>"
proof (intro conjI)
  have "get_n_bands example_binning = 2"
    by (simp add: example_binning_def)
  with check_identity_winv[of example_binning]
  show "check_winv example_binning (Some (identity_winv (get_n_bands example_binning)))
      = Inr (Some (identity_matrix 2))"
    by simp
  show "pcl_of example_collab_inf example_binning None [(0, 1, 2), (0, 3, 4)] 0 1 =
       Inr \<lparr>shape = [4, 2], items = [PInf, Finite 0, Finite 0, Finite 0, Finite 0, Finite 0, Finite 0, Finite 0]\<rparr>"
    by (simp add: pcl_of_def list_get_def example_collab_inf_def example_collab_def example_pcl_inf_def
        example_binning_def deconvolve_def)
  have dot: "np_dot (identity_matrix 2) (flatten example_pcl_inf) =
      Inr \<lparr>shape = [8], items = [PInf, NaN, NaN, NaN, NaN, NaN, NaN, NaN]\<rparr>"
    by (simp add: np_dot_def identity_matrix_def identity_winv_def flatten_def example_pcl_inf_def
        upt_rec fl_0)
  show "pcl_of example_collab_inf example_binning (Some (identity_matrix 2)) [(0, 1, 2), (0, 3, 4)] 0 1 =
       Inr \<lparr>shape = [4, 2], items = [PInf, NaN, NaN, NaN, NaN, NaN, NaN, NaN]\<rparr>"
    by (simp add: pcl_of_def list_get_def example_collab_inf_def example_collab_def
        example_binning_def deconvolve_def dot reshape_def)
qed

theorem deconvolve_identity_witness:
  "shape (example_pcl 3) = [4, get_n_bands example_binning]
   \<and> wf_ndarray (example_pcl 3)
   \<and> list_all is_float64 (items (example_pcl 3)) \<and> list_all isfinite (items (example_pcl 3))
   \<and> pcl_of example_collab example_binning None [(0, 1, 2), (0, 3, 4)] 0 1 = Inr (example_pcl 3)
   \<and> (\<exists>w. check_winv example_binning (Some (identity_winv (get_n_bands example_binning))) = Inr (Some w)
        \<and> deconvolve (Some w) (get_n_bands example_binning) (example_pcl 3) = Inr (example_pcl 3)
        \<and> pcl_of example_collab example_binning (Some w) [(0, 1, 2), (0, 3, 4)] 0 1 = Inr (example_pcl 3))"
proof -
  let ?p = "example_pcl 3"
  have s: "shape ?p = [4, get_n_bands example_binning]"
    by (simp add: example_binning_def example_pcl_shape)
  have w: "wf_ndarray ?p"
    by (rule example_pcl_wf)
  have f: "list_all is_float64 (items ?p)" "list_all isfinite (items ?p)"
    by (rule example_pcl_finite, simp)+
  note p = example_pcl_of
  from deconvolve_identity[of example_binning ?p example_collab "[(0, 1, 2), (0, 3, 4)]" 0 1]
  obtain w' where "check_winv example_binning (Some (identity_winv (get_n_bands example_binning))) = Inr (Some w')"
    and "shape ?p = [4, get_n_bands example_binning] \<and> wf_ndarray ?p
        \<and> list_all is_float64 (items ?p) \<and> list_all isfinite (items ?p)
          \<longrightarrow> deconvolve (Some w') (get_n_bands example_binning) ?p = Inr ?p"
    and "pcl_of example_collab example_binning None [(0, 1, 2), (0, 3, 4)] 0 1 = Inr ?p
          \<and> shape ?p = [4, get_n_bands example_binning] \<and> wf_ndarray ?p
        \<and> list_all is_float64 (items ?p) \<and> list_all isfinite (items ?p)
          \<longrightarrow> pcl_of example_collab example_binning (Some w') [(0, 1, 2), (0, 3, 4)] 0 1 = Inr ?p"
    by blast
  with s w f p show ?thesis
    by blast
qed

subsection \<open>The archive\<close>

lemma add_ell_cl_Inr:
  assumes "add_ell_cl dt n1 n2 l x s = Inr s'"
  shows "records s' = records s @ [\<lparr>data_type = dt, tracer1 = n1, tracer2 = n2, ell = l, cl = x\<rparr>]
    \<and> tracers s' = tracers s"
  using assms by (auto simp: add_ell_cl_def ebind_Inr_iff split: if_splits)

lemma add_pair_Inr:
  assumes "add_pair names leff cls t s = Inr s'"
  shows "\<exists>blk. records s' = records s @ blk \<and> tracers s' = tracers s \<and> pair_block names leff cls t blk"
proof -
  obtain icl i j where t: "t = (icl, i, j)" by (cases t) auto
  from assms obtain n1 n2 c ee s1 eb s2 s3 bb where n1: "list_get names i = Inr n1"
    and n2: "list_get names j = Inr n2"
    and c: "list_get cls icl = Inr c" and ee: "nd_row c 0 = Inr ee"
    and s1: "add_ell_cl ''cl_ee'' n1 n2 leff ee s = Inr s1"
    and eb: "nd_row c 1 = Inr eb"
    and s2: "add_ell_cl ''cl_eb'' n1 n2 leff eb s1 = Inr s2"
    and s3: "(if i \<noteq> j then ebind (nd_row c 2) (\<lambda>be. add_ell_cl ''cl_be'' n1 n2 leff be s2)
               else Inr s2) = Inr s3"
    and bb: "nd_row c 3 = Inr bb" and s': "add_ell_cl ''cl_bb'' n1 n2 leff bb s3 = Inr s'"
    unfolding t add_pair_def prod.case ebind_Inr_iff by blast
  from n1 n2 c have nm: "names ! i = n1" "names ! j = n2" "cls ! icl = c"
    by (auto simp: list_get_def split: if_splits)
  note r1 = add_ell_cl_Inr[OF s1] and r2 = add_ell_cl_Inr[OF s2] and r' = add_ell_cl_Inr[OF s']
  show ?thesis
  proof (cases "i = j")
    case True
    with s3 have "s3 = s2"
      by simp
    with r1 r2 r' True ee eb bb nm show ?thesis
      by (simp add: pair_block_def t)
  next
    case False
    with s3 obtain be where be: "nd_row c 2 = Inr be"
      and "add_ell_cl ''cl_be'' n1 n2 leff be s2 = Inr s3"
      by (auto simp: ebind_Inr_iff)
    from add_ell_cl_Inr[OF this(2)] r1 r2 r' False ee eb be bb nm show ?thesis
      by (simp add: pair_block_def t)
  qed
qed

lemma add_cls_Inr:
  assumes "add_cls names leff cls ts s = Inr s'"
  shows "\<exists>blocks. records s' = records s @ concat blocks \<and> tracers s' = tracers s
    \<and> list_all2 (pair_block names leff cls) ts blocks"
  using assms
proof (induction ts arbitrary: s)
  case Nil
  then show ?case by simp
next
  case (Cons t ts)
  from Cons.prems obtain s1 where a: "add_pair names leff cls t s = Inr s1"
    and r: "add_cls names leff cls ts s1 = Inr s'"
    by (auto simp: ebind_Inr_iff)
  from add_pair_Inr[OF a] obtain blk where b: "records s1 = records s @ blk" "tracers s1 = tracers s"
    "pair_block names leff cls t blk"
    by blast
  from Cons.IH[OF r] obtain blocks where bs: "records s' = records s1 @ concat blocks"
    "tracers s' = tracers s1" "list_all2 (pair_block names leff cls) ts blocks"
    by blast
  from b bs have "records s' = records s @ concat (blk # blocks) \<and> tracers s' = tracers s
      \<and> list_all2 (pair_block names leff cls) (t # ts) (blk # blocks)"
    by simp
  then show ?case ..
qed

lemma read_fields_Inr:
  assumes "read_fields x msk fnames = (Inr flds, evs)"
  shows "length flds = length fnames \<and> evs = concat (map (\<lambda>f. [ReadMap f, BuildField]) fnames)"
  using assms
proof (induction fnames arbitrary: flds evs)
  case Nil
  then show ?case by simp
next
  case (Cons f fs)
  from Cons.prems obtain q u fld flds' evs' where "read_map x f = Inr (q, u)"
    and "NmtField x msk q u = Inr fld" and r: "read_fields x msk fs = (Inr flds', evs')"
    and "flds = fld # flds'" and "evs = ReadMap f # BuildField # evs'"
    by (auto split: sum.splits prod.splits)
  with Cons.IH[OF r] show ?case by simp
qed

lemma records_add_tracers: "records (fold (add_tracer ty) names s0) = records s0"
  by (induction names arbitrary: s0) (simp_all add: add_tracer_def)

lemma get_pcls_Inr:
  assumes "get_pcls x fnames names fname_out msk b winv = (Inr (), evs)"
  obtains winv' flds evs0 cls s where "check_winv b winv = Inr winv'"
    and "read_fields x msk fnames = (Inr flds, evs0)"
    and "compute_cls x b winv' flds (cl_pair_iter (int (length flds))) [] = Inr cls"
    and "add_cls names (get_effective_ells b) cls (cl_pair_iter (int (length flds)))
        (fold (add_tracer ''Misc'') names empty_sacc) = Inr s"
    and "evs = evs0 @ [SaveFits fname_out s]"
  using assms by (auto simp: get_pcls_def Let_def split: sum.splits prod.splits)

text \<open>
  C8: when \<open>get_pcls\<close> returns, it has read each map and built each field in order and
  then saved one archive to the output path; the records of the archive are, for each
  triple of the iterator in order, \<open>cl_ee\<close>, \<open>cl_eb\<close>, \<open>cl_be\<close> only when \<open>i \<noteq> j\<close>, and
  \<open>cl_bb\<close>, holding rows 0, 1, 2 and 3 of the spectrum of the pair, each with the
  effective multipoles of the binning and the names \<open>names[i]\<close>, \<open>names[j]\<close>.
\<close>

theorem get_pcls_records:
  assumes "get_pcls x fnames names fname_out msk b winv = (Inr (), evs)"
  shows "\<exists>s cls blocks.
      evs = concat (map (\<lambda>f. [ReadMap f, BuildField]) fnames) @ [SaveFits fname_out s]
    \<and> tracers s = tracers (fold (add_tracer ''Misc'') names empty_sacc)
    \<and> records s = concat blocks
    \<and> list_all2 (pair_block names (get_effective_ells b) cls) (cl_pair_iter (int (length fnames))) blocks"
proof -
  from assms obtain winv' flds evs0 cls s where "check_winv b winv = Inr winv'"
    and rf: "read_fields x msk fnames = (Inr flds, evs0)"
    and "compute_cls x b winv' flds (cl_pair_iter (int (length flds))) [] = Inr cls"
    and ac: "add_cls names (get_effective_ells b) cls (cl_pair_iter (int (length flds)))
        (fold (add_tracer ''Misc'') names empty_sacc) = Inr s"
    and evs: "evs = evs0 @ [SaveFits fname_out s]"
    by (rule get_pcls_Inr)
  from read_fields_Inr[OF rf] have len: "length flds = length fnames"
    and evs0: "evs0 = concat (map (\<lambda>f. [ReadMap f, BuildField]) fnames)"
    by simp_all
  from add_cls_Inr[OF ac] obtain blocks where
    "records s = records (fold (add_tracer ''Misc'') names empty_sacc) @ concat blocks"
    and tr: "tracers s = tracers (fold (add_tracer ''Misc'') names empty_sacc)"
    and bl: "list_all2 (pair_block names (get_effective_ells b) cls) (cl_pair_iter (int (length flds))) blocks"
    by blast
  then have rec: "records s = concat blocks"
    by (simp add: records_add_tracers empty_sacc_def)
  from evs evs0 tr rec bl len show ?thesis
    by auto
qed

lemma example_cls_list:
  "compute_cls example_collab example_binning None [(0, 1, 2), (0, 3, 4)] [(0, 0, 0), (1, 0, 1), (2, 1, 1)] [] =
    Inr [example_pcl 1, example_pcl 3, example_pcl 9]"
  using example_cls by (simp only: cl_pair_iter_2)

lemma example_add_cls:
  "\<exists>s. add_cls [''a'', ''b''] [Finite 10, Finite 20] [example_pcl 1, example_pcl 3, example_pcl 9]
      [(0, 0, 0), (1, 0, 1), (2, 1, 1)] (fold (add_tracer ''Misc'') [''a'', ''b''] empty_sacc) = Inr s"
  by (simp add: add_pair_def list_get_def nd_row_def nd_len_def add_ell_cl_def example_pcl_def
      add_tracer_def empty_sacc_def)

lemma example_get_pcls:
  "\<exists>evs. get_pcls example_collab [''m0.fits'', ''m1.fits''] [''a'', ''b''] ''out.fits'' (0 :: nat)
      example_binning None = (Inr (), evs)"
proof -
  have e: "get_effective_ells example_binning = [Finite 10, Finite 20]"
    by (simp add: example_binning_def)
  have c: "check_winv example_binning None = Inr None"
    by (simp add: check_winv_def)
  have n: "int (length [(0 :: nat, 1 :: nat, 2 :: nat), (0, 3, 4)]) = 2"
    by simp
  obtain s where "add_cls [''a'', ''b''] [Finite 10, Finite 20] [example_pcl 1, example_pcl 3, example_pcl 9]
      [(0, 0, 0), (1, 0, 1), (2, 1, 1)] (fold (add_tracer ''Misc'') [''a'', ''b''] empty_sacc) = Inr s"
    using example_add_cls by blast
  then have s: "add_cls [''a'', ''b''] [Finite 10, Finite 20] [example_pcl 1, example_pcl 3, example_pcl 9]
      (cl_pair_iter 2) (fold (add_tracer ''Misc'') [''a'', ''b''] empty_sacc) = Inr s"
    by (simp only: cl_pair_iter_2)
  have "get_pcls example_collab [''m0.fits'', ''m1.fits''] [''a'', ''b''] ''out.fits'' (0 :: nat)
      example_binning None =
      (Inr (), [ReadMap ''m0.fits'', BuildField, ReadMap ''m1.fits'', BuildField] @ [SaveFits ''out.fits'' s])"
    by (simp only: get_pcls_def c example_fields sum.case prod.case Let_def n example_cls e s)
  then show ?thesis ..
qed

theorem get_pcls_records_witness:
  "\<exists>evs. get_pcls example_collab [''m0.fits'', ''m1.fits''] [''a'', ''b''] ''out.fits'' (0 :: nat)
      example_binning None = (Inr (), evs)
    \<and> (\<exists>s blocks. evs = [ReadMap ''m0.fits'', BuildField, ReadMap ''m1.fits'', BuildField,
                           SaveFits ''out.fits'' s]
        \<and> records s = concat blocks
        \<and> map (map data_type) blocks =
            [[''cl_ee'', ''cl_eb'', ''cl_bb''], [''cl_ee'', ''cl_eb'', ''cl_be'', ''cl_bb''],
             [''cl_ee'', ''cl_eb'', ''cl_bb'']])"
proof -
  obtain evs where run: "get_pcls example_collab [''m0.fits'', ''m1.fits''] [''a'', ''b''] ''out.fits'' (0 :: nat)
      example_binning None = (Inr (), evs)"
    using example_get_pcls by blast
  from get_pcls_records[OF run] obtain s cls blocks where
    evs: "evs = concat (map (\<lambda>f. [ReadMap f, BuildField]) [''m0.fits'', ''m1.fits'']) @ [SaveFits ''out.fits'' s]"
    and rec: "records s = concat blocks"
    and bl: "list_all2 (pair_block [''a'', ''b''] (get_effective_ells example_binning) cls)
        (cl_pair_iter (int (length [''m0.fits'', ''m1.fits'']))) blocks"
    by blast
  have "int (length [''m0.fits'', ''m1.fits'']) = 2"
    by simp
  with bl have "list_all2 (pair_block [''a'', ''b''] (get_effective_ells example_binning) cls)
      [(0, 0, 0), (1, 0, 1), (2, 1, 1)] blocks"
    by (simp only: cl_pair_iter_2)
  then obtain b0 b1 b2 where blocks: "blocks = [b0, b1, b2]"
    and p0: "pair_block [''a'', ''b''] (get_effective_ells example_binning) cls (0, 0, 0) b0"
    and p1: "pair_block [''a'', ''b''] (get_effective_ells example_binning) cls (1, 0, 1) b1"
    and p2: "pair_block [''a'', ''b''] (get_effective_ells example_binning) cls (2, 1, 1) b2"
    by (auto simp: list_all2_Cons1)
  have dt: "map data_type blk = (if i \<noteq> j then [''cl_ee'', ''cl_eb'', ''cl_be'', ''cl_bb'']
      else [''cl_ee'', ''cl_eb'', ''cl_bb''])"
    if "pair_block names leff cls' (icl, i, j) blk" for names leff cls' icl i j blk
    using that unfolding pair_block_def prod.case by (rule conjunct1)
  have d0: "map data_type b0 = [''cl_ee'', ''cl_eb'', ''cl_bb'']"
    using dt[OF p0] by simp
  have d1: "map data_type b1 = [''cl_ee'', ''cl_eb'', ''cl_be'', ''cl_bb'']"
    using dt[OF p1] by simp
  have d2: "map data_type b2 = [''cl_ee'', ''cl_eb'', ''cl_bb'']"
    using dt[OF p2] by simp
  from evs have evs': "evs = [ReadMap ''m0.fits'', BuildField, ReadMap ''m1.fits'', BuildField,
      SaveFits ''out.fits'' s]"
    by simp
  have dtb: "map (map data_type) blocks =
      [[''cl_ee'', ''cl_eb'', ''cl_bb''], [''cl_ee'', ''cl_eb'', ''cl_be'', ''cl_bb''],
       [''cl_ee'', ''cl_eb'', ''cl_bb'']]"
    by (simp only: blocks list.map d0 d1 d2)
  have "\<exists>s blocks. evs = [ReadMap ''m0.fits'', BuildField, ReadMap ''m1.fits'', BuildField,
                           SaveFits ''out.fits'' s]
        \<and> records s = concat blocks
        \<and> map (map data_type) blocks =
            [[''cl_ee'', ''cl_eb'', ''cl_bb''], [''cl_ee'', ''cl_eb'', ''cl_be'', ''cl_bb''],
             [''cl_ee'', ''cl_eb'', ''cl_bb'']]"
  proof (intro exI conjI)
    show "evs = [ReadMap ''m0.fits'', BuildField, ReadMap ''m1.fits'', BuildField,
        SaveFits ''out.fits'' s]"
      by (rule evs')
    show "records s = concat blocks"
      by (rule rec)
    show "map (map data_type) blocks =
        [[''cl_ee'', ''cl_eb'', ''cl_bb''], [''cl_ee'', ''cl_eb'', ''cl_be'', ''cl_bb''],
         [''cl_ee'', ''cl_eb'', ''cl_bb'']]"
      by (rule dtb)
  qed
  with run show ?thesis
    by (intro exI[of _ evs] conjI)
qed


subsection \<open>The compute loop and the save loop\<close>

text \<open>
  C10: \<open>cl_pair_iter n\<close> yields \<open>n (n + 1) / 2\<close> triples; the counters are \<open>0, 1, 2, \<dots>\<close>
  in order, the pairs are the pairs \<open>i \<le> j < n\<close>, each once, in row-major order. When the
  compute loop succeeds, the spectrum it stored at position \<open>icl\<close> is the one of the pair
  \<open>(i, j)\<close> of the same triple. When \<open>get_pcls\<close> returns, the archive it saved holds, for
  each triple \<open>(icl, i, j)\<close> in order, the rows of that spectrum \<open>cls[icl]\<close> of the compute
  loop, under the names \<open>names[i]\<close> and \<open>names[j]\<close>.
\<close>

theorem cl_pair_iter_order:
  "cl_pair_iter n = map (\<lambda>(icl, p). (icl, fst p, snd p))
      (enumerate 0 (concat (map (\<lambda>i. map (Pair i) [i..<nat n]) [0..<nat n])))
   \<and> length (cl_pair_iter n) = nat n * (nat n + 1) div 2
   \<and> map fst (cl_pair_iter n) = [0..<length (cl_pair_iter n)]
   \<and> set (map snd (cl_pair_iter n)) = {(i, j). i \<le> j \<and> j < nat n}
   \<and> distinct (map snd (cl_pair_iter n))
   \<and> (compute_cls x b winv flds (cl_pair_iter n) [] = Inr cls \<longrightarrow>
        length cls = length (cl_pair_iter n)
        \<and> (\<forall>t \<in> set (cl_pair_iter n).
              list_get cls (fst t) = pcl_of x b winv flds (fst (snd t)) (snd (snd t))))
   \<and> (get_pcls x fnames names fname_out msk b winv = (Inr (), evs) \<longrightarrow>
        (\<exists>winv' flds' evs0 cls' s blocks.
            check_winv b winv = Inr winv'
          \<and> read_fields x msk fnames = (Inr flds', evs0)
          \<and> compute_cls x b winv' flds' (cl_pair_iter (int (length flds'))) [] = Inr cls'
          \<and> length cls' = length (cl_pair_iter (int (length flds')))
          \<and> (\<forall>t \<in> set (cl_pair_iter (int (length flds'))).
                list_get cls' (fst t) = pcl_of x b winv' flds' (fst (snd t)) (snd (snd t)))
          \<and> evs = evs0 @ [SaveFits fname_out s]
          \<and> records s = concat blocks
          \<and> list_all2 (pair_block names (get_effective_ells b) cls')
                (cl_pair_iter (int (length flds'))) blocks))"
proof -
  have loop: "length cs = length (cl_pair_iter k)
        \<and> (\<forall>t \<in> set (cl_pair_iter k).
              list_get cs (fst t) = pcl_of x b w fs (fst (snd t)) (snd (snd t)))"
    if run: "compute_cls x b w fs (cl_pair_iter k) [] = Inr cs" for w fs k cs
  proof
    from compute_cls_Inr[OF run] show "length cs = length (cl_pair_iter k)"
      by simp
    show "\<forall>t \<in> set (cl_pair_iter k).
        list_get cs (fst t) = pcl_of x b w fs (fst (snd t)) (snd (snd t))"
    proof
      fix t assume "t \<in> set (cl_pair_iter k)"
      then have "(fst t, fst (snd t), snd (snd t)) \<in> set (cl_pair_iter k)"
        by simp
      from compute_cls_pair_iter[OF run this]
      show "list_get cs (fst t) = pcl_of x b w fs (fst (snd t)) (snd (snd t))"
        by (simp add: list_get_def)
    qed
  qed
  show ?thesis
  proof (intro conjI impI)
    show "cl_pair_iter n = map (\<lambda>(icl, p). (icl, fst p, snd p))
        (enumerate 0 (concat (map (\<lambda>i. map (Pair i) [i..<nat n]) [0..<nat n])))"
      by (simp only: cl_pair_iter_eq upper_pairs_upt)
    show "length (cl_pair_iter n) = nat n * (nat n + 1) div 2"
      by (rule length_cl_pair_iter)
    show "map fst (cl_pair_iter n) = [0..<length (cl_pair_iter n)]"
      by (rule map_fst_cl_pair_iter)
    show "set (map snd (cl_pair_iter n)) = {(i, j). i \<le> j \<and> j < nat n}"
      by (simp only: map_snd_cl_pair_iter set_upper_pairs_upt)
    show "distinct (map snd (cl_pair_iter n))"
      by (simp only: map_snd_cl_pair_iter) (rule distinct_upper_pairs, simp)
  next
    assume run: "compute_cls x b winv flds (cl_pair_iter n) [] = Inr cls"
    from loop[OF run] show "length cls = length (cl_pair_iter n)"
      by (rule conjunct1)
    from loop[OF run] show "\<forall>t \<in> set (cl_pair_iter n).
        list_get cls (fst t) = pcl_of x b winv flds (fst (snd t)) (snd (snd t))"
      by (rule conjunct2)
  next
    assume "get_pcls x fnames names fname_out msk b winv = (Inr (), evs)"
    then obtain winv' flds' evs0 cls' s where cw: "check_winv b winv = Inr winv'"
      and rf: "read_fields x msk fnames = (Inr flds', evs0)"
      and cc: "compute_cls x b winv' flds' (cl_pair_iter (int (length flds'))) [] = Inr cls'"
      and ac: "add_cls names (get_effective_ells b) cls' (cl_pair_iter (int (length flds')))
          (fold (add_tracer ''Misc'') names empty_sacc) = Inr s"
      and evs: "evs = evs0 @ [SaveFits fname_out s]"
      by (rule get_pcls_Inr)
    from add_cls_Inr[OF ac] obtain blocks where
      "records s = records (fold (add_tracer ''Misc'') names empty_sacc) @ concat blocks"
      and bl: "list_all2 (pair_block names (get_effective_ells b) cls')
          (cl_pair_iter (int (length flds'))) blocks"
      by blast
    then have rec: "records s = concat blocks"
      by (simp add: records_add_tracers empty_sacc_def)
    show "\<exists>winv' flds' evs0 cls' s blocks.
            check_winv b winv = Inr winv'
          \<and> read_fields x msk fnames = (Inr flds', evs0)
          \<and> compute_cls x b winv' flds' (cl_pair_iter (int (length flds'))) [] = Inr cls'
          \<and> length cls' = length (cl_pair_iter (int (length flds')))
          \<and> (\<forall>t \<in> set (cl_pair_iter (int (length flds'))).
                list_get cls' (fst t) = pcl_of x b winv' flds' (fst (snd t)) (snd (snd t)))
          \<and> evs = evs0 @ [SaveFits fname_out s]
          \<and> records s = concat blocks
          \<and> list_all2 (pair_block names (get_effective_ells b) cls')
                (cl_pair_iter (int (length flds'))) blocks"
    proof (intro exI conjI)
      show "check_winv b winv = Inr winv'" by (rule cw)
      show "read_fields x msk fnames = (Inr flds', evs0)" by (rule rf)
      show "compute_cls x b winv' flds' (cl_pair_iter (int (length flds'))) [] = Inr cls'" by (rule cc)
      from loop[OF cc] show "length cls' = length (cl_pair_iter (int (length flds')))"
        by (rule conjunct1)
      from loop[OF cc] show "\<forall>t \<in> set (cl_pair_iter (int (length flds'))).
          list_get cls' (fst t) = pcl_of x b winv' flds' (fst (snd t)) (snd (snd t))"
        by (rule conjunct2)
      show "evs = evs0 @ [SaveFits fname_out s]" by (rule evs)
      show "records s = concat blocks" by (rule rec)
      show "list_all2 (pair_block names (get_effective_ells b) cls')
          (cl_pair_iter (int (length flds'))) blocks" by (rule bl)
    qed
  qed
qed

theorem cl_pair_iter_order_witness:
  "cl_pair_iter 2 = [(0, 0, 0), (1, 0, 1), (2, 1, 1)]
   \<and> compute_cls example_collab example_binning None [(0, 1, 2), (0, 3, 4)] (cl_pair_iter 2) [] =
        Inr [example_pcl 1, example_pcl 3, example_pcl 9]
   \<and> (1, 0, 1) \<in> set (cl_pair_iter 2)
   \<and> pcl_of example_collab example_binning None [(0, 1, 2), (0, 3, 4)] 0 1 = Inr (example_pcl 3)
   \<and> (\<exists>evs. get_pcls example_collab [''m0.fits'', ''m1.fits''] [''a'', ''b''] ''out.fits'' (0 :: nat)
          example_binning None = (Inr (), evs)
        \<and> (\<exists>evs0 s blocks. evs = evs0 @ [SaveFits ''out.fits'' s]
            \<and> records s = concat blocks
            \<and> list_all2 (pair_block [''a'', ''b''] [Finite 10, Finite 20]
                  [example_pcl 1, example_pcl 3, example_pcl 9])
                [(0, 0, 0), (1, 0, 1), (2, 1, 1)] blocks))"
proof -
  let ?cls = "[example_pcl 1, example_pcl 3, example_pcl 9]"
  let ?flds = "[(0 :: nat, 1 :: nat, 2 :: nat), (0, 3, 4)]"
  obtain evs where run: "get_pcls example_collab [''m0.fits'', ''m1.fits''] [''a'', ''b''] ''out.fits'' (0 :: nat)
      example_binning None = (Inr (), evs)"
    using example_get_pcls by blast
  note t = cl_pair_iter_order[of 2 example_collab example_binning None ?flds ?cls
      "[''m0.fits'', ''m1.fits'']" "[''a'', ''b'']" "''out.fits''" 0 evs]
  have m: "(1, 0, 1) \<in> set (cl_pair_iter 2)"
    by (simp add: cl_pair_iter_2)
  from t example_cls have every: "\<forall>t \<in> set (cl_pair_iter 2).
      list_get ?cls (fst t) = pcl_of example_collab example_binning None ?flds (fst (snd t)) (snd (snd t))"
    by blast
  from every m have "list_get ?cls (fst (1 :: nat, 0 :: nat, 1 :: nat)) =
      pcl_of example_collab example_binning None ?flds (fst (snd (1 :: nat, 0 :: nat, 1 :: nat))) (snd (snd (1 :: nat, 0 :: nat, 1 :: nat)))"
    by (rule bspec)
  then have p: "pcl_of example_collab example_binning None ?flds 0 1 = Inr (example_pcl 3)"
    by (simp add: list_get_def)
  from t run obtain winv' flds' evs0 cls' s blocks where
      rf: "read_fields example_collab (0 :: nat) [''m0.fits'', ''m1.fits''] = (Inr flds', evs0)"
    and cc: "compute_cls example_collab example_binning winv' flds' (cl_pair_iter (int (length flds'))) [] = Inr cls'"
    and cw: "check_winv example_binning None = Inr winv'"
    and evs: "evs = evs0 @ [SaveFits ''out.fits'' s]"
    and rec: "records s = concat blocks"
    and bl: "list_all2 (pair_block [''a'', ''b''] (get_effective_ells example_binning) cls')
        (cl_pair_iter (int (length flds'))) blocks"
    by blast
  from rf[unfolded example_fields] have f: "flds' = ?flds"
    by simp
  from cw have w: "winv' = None"
    by (simp add: check_winv_def)
  have n: "int (length ?flds) = 2"
    by simp
  from cc have c: "cls' = ?cls"
    unfolding f w n by (simp only: example_cls sum.inject)
  have e: "get_effective_ells example_binning = [Finite 10, Finite 20]"
    by (simp add: example_binning_def)
  from bl have bl': "list_all2 (pair_block [''a'', ''b''] [Finite 10, Finite 20] ?cls)
      [(0, 0, 0), (1, 0, 1), (2, 1, 1)] blocks"
    unfolding f c n e cl_pair_iter_2 .
  have arch: "\<exists>evs0 s blocks. evs = evs0 @ [SaveFits ''out.fits'' s]
            \<and> records s = concat blocks
            \<and> list_all2 (pair_block [''a'', ''b''] [Finite 10, Finite 20] ?cls)
                [(0, 0, 0), (1, 0, 1), (2, 1, 1)] blocks"
  proof (intro exI conjI)
    show "evs = evs0 @ [SaveFits ''out.fits'' s]" by (rule evs)
    show "records s = concat blocks" by (rule rec)
    show "list_all2 (pair_block [''a'', ''b''] [Finite 10, Finite 20] ?cls)
                [(0, 0, 0), (1, 0, 1), (2, 1, 1)] blocks" by (rule bl')
  qed
  show ?thesis
  proof (intro conjI)
    show "cl_pair_iter 2 = [(0, 0, 0), (1, 0, 1), (2, 1, 1)]" by (rule cl_pair_iter_2)
    show "compute_cls example_collab example_binning None ?flds (cl_pair_iter 2) [] = Inr ?cls"
      by (rule example_cls)
    show "(1, 0, 1) \<in> set (cl_pair_iter 2)" by (rule m)
    show "pcl_of example_collab example_binning None ?flds 0 1 = Inr (example_pcl 3)" by (rule p)
    from run arch have "get_pcls example_collab [''m0.fits'', ''m1.fits''] [''a'', ''b''] ''out.fits'' (0 :: nat)
          example_binning None = (Inr (), evs)
        \<and> (\<exists>evs0 s blocks. evs = evs0 @ [SaveFits ''out.fits'' s]
            \<and> records s = concat blocks
            \<and> list_all2 (pair_block [''a'', ''b''] [Finite 10, Finite 20] ?cls)
                [(0, 0, 0), (1, 0, 1), (2, 1, 1)] blocks)"
      by (rule conjI)
    then show "\<exists>evs. get_pcls example_collab [''m0.fits'', ''m1.fits''] [''a'', ''b''] ''out.fits'' (0 :: nat)
          example_binning None = (Inr (), evs)
        \<and> (\<exists>evs0 s blocks. evs = evs0 @ [SaveFits ''out.fits'' s]
            \<and> records s = concat blocks
            \<and> list_all2 (pair_block [''a'', ''b''] [Finite 10, Finite 20] ?cls)
                [(0, 0, 0), (1, 0, 1), (2, 1, 1)] blocks)"
      by (rule exI[of _ evs])
  qed
qed


end
